theory Spec2Isabelle
  imports Main
begin

chapter \<open>Repository scope of a search in gh-dash\<close>

text \<open>
  A section of the dashboard shows the items that match a search query. The query is composed
  from the text in the search bar and a scope: the repository of the working directory (the
  origin remote), its parent (the upstream remote), a repository chosen in a picker, or none.
  This theory embeds the functions that do this, from \<open>internal/git/git.go\<close> (parsing a
  remote URL) and \<open>internal/tui/components/section/section.go\<close> (composing the query and
  reading the scope back from an edited query), and proves what the specification says of
  them, or what holds in its place.
\<close>

section \<open>Go strings\<close>

text \<open>
  A Go string is a sequence of bytes, here a \<^typ>\<open>string\<close> (a list of 8-bit characters).
  The functions of the packages \<open>unicode/utf8\<close>, \<open>unicode\<close> and \<open>strings\<close> that the sources
  call are written out below. A rune is a code point, a natural number. White space is what
  \<open>unicode.IsSpace\<close> says of a rune, and the runes of a string are what
  \<open>utf8.DecodeRuneInString\<close> reads from its bytes: a text may hold white space of several
  bytes, such as the no-break space U+00A0 (the bytes \<open>C2 A0\<close>), and bytes that are no UTF-8
  at all.
\<close>

definition byte :: "char \<Rightarrow> nat" where
  "byte c = of_char c"

subsection \<open>Package utf8\<close>

text \<open>\<open>utf8.RuneError\<close>, the rune U+FFFD, stands for bytes that do not encode a rune.\<close>

definition RuneError :: nat where
  "RuneError = 0xFFFD"

text \<open>The table \<open>first\<close> gives for a first byte in \<open>C2..F4\<close> the size of the encoding, and
  the table \<open>acceptRanges\<close> the range of its second byte. The bytes after the second are in
  \<open>80..BF\<close> (\<open>locb\<close> to \<open>hicb\<close>).\<close>

definition runeSize :: "nat \<Rightarrow> nat" where
  "runeSize s0 = (if s0 < 0xE0 then 2 else if s0 < 0xF0 then 3 else 4)"

definition acceptLo :: "nat \<Rightarrow> nat" where
  "acceptLo s0 = (if s0 = 0xE0 then 0xA0 else if s0 = 0xF0 then 0x90 else 0x80)"

definition acceptHi :: "nat \<Rightarrow> nat" where
  "acceptHi s0 = (if s0 = 0xED then 0x9F else if s0 = 0xF4 then 0x8F else 0xBF)"

text \<open>\<open>utf8.DecodeRuneInString\<close>: the rune at the start of the string and its width in
  bytes. A byte below \<open>80\<close> is its own rune. A first byte outside \<open>C2..F4\<close>, a string shorter
  than the size of the encoding, and a later byte outside its range give \<open>RuneError\<close> with
  width 1. The empty string gives \<open>RuneError\<close> with width 0.\<close>

definition DecodeRuneInString :: "string \<Rightarrow> nat \<times> nat" where
  "DecodeRuneInString s =
     (if s = [] then (RuneError, 0)
      else
        (let s0 = byte (s ! 0) in
         if s0 < 0x80 then (s0, 1)
         else if s0 < 0xC2 \<or> 0xF4 < s0 then (RuneError, 1)
         else if length s < runeSize s0 then (RuneError, 1)
         else
           (let s1 = byte (s ! 1) in
            if s1 < acceptLo s0 \<or> acceptHi s0 < s1 then (RuneError, 1)
            else if runeSize s0 \<le> 2 then ((s0 mod 32) * 64 + s1 mod 64, 2)
            else
              (let s2 = byte (s ! 2) in
               if s2 < 0x80 \<or> 0xBF < s2 then (RuneError, 1)
               else if runeSize s0 \<le> 3 then
                 ((s0 mod 16) * 4096 + (s1 mod 64) * 64 + s2 mod 64, 3)
               else
                 (let s3 = byte (s ! 3) in
                  if s3 < 0x80 \<or> 0xBF < s3 then (RuneError, 1)
                  else
                    ((s0 mod 8) * 262144 + (s1 mod 64) * 4096 + (s2 mod 64) * 64 + s3 mod 64,
                     4))))))"

text \<open>\<open>utf8.RuneStart\<close>: the byte is not a continuation byte (\<open>80..BF\<close>).\<close>

definition RuneStart :: "char \<Rightarrow> bool" where
  "RuneStart c \<longleftrightarrow> \<not> (0x80 \<le> byte c \<and> byte c < 0xC0)"

text \<open>\<open>utf8.DecodeLastRuneInString\<close>: the rune at the end of the string and its width. A last
  byte below \<open>80\<close> is its own rune. Otherwise the start of the last rune is looked for among
  the three bytes before the last one (\<open>UTFMax\<close> is 4), going backwards, at the first byte that
  starts a rune; when there is none, the loop ends one position before its limit, or at 0.
  The rune decoded from there counts only if it ends where the string ends.\<close>

definition DecodeLastRuneInString :: "string \<Rightarrow> nat \<times> nat" where
  "DecodeLastRuneInString s =
     (let n = length s in
      if n = 0 then (RuneError, 0)
      else if byte (s ! (n - 1)) < 0x80 then (byte (s ! (n - 1)), 1)
      else
        (let start =
               (if 2 \<le> n \<and> RuneStart (s ! (n - 2)) then n - 2
                else if 3 \<le> n \<and> RuneStart (s ! (n - 3)) then n - 3
                else if 4 \<le> n \<and> RuneStart (s ! (n - 4)) then n - 4
                else n - 5);
             (r, size) = DecodeRuneInString (drop start s)
         in if start + size \<noteq> n then (RuneError, 1) else (r, size)))"

text \<open>The width of the first rune.\<close>

definition runeWidth :: "string \<Rightarrow> nat" where
  "runeWidth s = snd (DecodeRuneInString s)"

subsection \<open>Package unicode\<close>

text \<open>\<open>unicode.IsSpace\<close>: in Latin-1 the runes tab, line feed, vertical tab, form feed,
  carriage return, space, U+0085 and U+00A0; beyond Latin-1 the runes of the table
  \<open>White_Space\<close>: U+1680, U+2000 to U+200A, U+2028, U+2029, U+202F, U+205F and U+3000.\<close>

definition IsSpace :: "nat \<Rightarrow> bool" where
  "IsSpace r \<longleftrightarrow>
     (if r \<le> 0xFF then
        r = 0x09 \<or> r = 0x0A \<or> r = 0x0B \<or> r = 0x0C \<or> r = 0x0D \<or> r = 0x20 \<or> r = 0x85 \<or> r = 0xA0
      else
        r = 0x1680 \<or> (0x2000 \<le> r \<and> r \<le> 0x200A) \<or> r = 0x2028 \<or> r = 0x2029 \<or> r = 0x202F
        \<or> r = 0x205F \<or> r = 0x3000)"

text \<open>Whether the first rune of a string is white space, and whether its last rune is.\<close>

definition startsWithSpace :: "string \<Rightarrow> bool" where
  "startsWithSpace s \<longleftrightarrow> IsSpace (fst (DecodeRuneInString s))"

definition endsWithSpace :: "string \<Rightarrow> bool" where
  "endsWithSpace s \<longleftrightarrow> IsSpace (fst (DecodeLastRuneInString s))"

subsection \<open>Package strings\<close>

text \<open>The table \<open>asciiSpace\<close>: the white space below \<open>80\<close>.\<close>

definition asciiSpace :: "char \<Rightarrow> bool" where
  "asciiSpace c \<longleftrightarrow>
     c = CHR 0x09 \<or> c = CHR 0x0A \<or> c = CHR 0x0B \<or> c = CHR 0x0C \<or> c = CHR 0x0D \<or> c = CHR '' ''"

text \<open>\<open>strings.HasPrefix\<close>, \<open>strings.HasSuffix\<close>, \<open>strings.TrimPrefix\<close>, \<open>strings.TrimSuffix\<close>,
  \<open>strings.CutPrefix\<close>, \<open>strings.CutSuffix\<close>.\<close>

definition HasPrefix :: "string \<Rightarrow> string \<Rightarrow> bool" where
  "HasPrefix s pre \<longleftrightarrow> length pre \<le> length s \<and> take (length pre) s = pre"

definition HasSuffix :: "string \<Rightarrow> string \<Rightarrow> bool" where
  "HasSuffix s suf \<longleftrightarrow> length suf \<le> length s \<and> drop (length s - length suf) s = suf"

definition TrimPrefix :: "string \<Rightarrow> string \<Rightarrow> string" where
  "TrimPrefix s pre = (if HasPrefix s pre then drop (length pre) s else s)"

definition TrimSuffix :: "string \<Rightarrow> string \<Rightarrow> string" where
  "TrimSuffix s suf = (if HasSuffix s suf then take (length s - length suf) s else s)"

definition CutPrefix :: "string \<Rightarrow> string \<Rightarrow> string \<times> bool" where
  "CutPrefix s pre = (if HasPrefix s pre then (drop (length pre) s, True) else (s, False))"

definition CutSuffix :: "string \<Rightarrow> string \<Rightarrow> string \<times> bool" where
  "CutSuffix s suf =
     (if HasSuffix s suf then (take (length s - length suf) s, True) else (s, False))"

text \<open>\<open>strings.TrimLeftFunc\<close> goes through the runes from the start (the \<open>range\<close> loop of
  \<open>indexFunc\<close>) and returns the string from the first rune on that \<open>f\<close> rejects.
  \<open>strings.TrimRightFunc\<close> goes through the runes from the end (\<open>lastIndexFunc\<close>, by
  \<open>DecodeLastRuneInString\<close>) and returns the string up to the last rune that \<open>f\<close> rejects, that
  rune included. \<open>strings.TrimFunc\<close> does the one, then the other.\<close>

function TrimLeftFunc :: "string \<Rightarrow> (nat \<Rightarrow> bool) \<Rightarrow> string" where
  "TrimLeftFunc [] f = []"
| "TrimLeftFunc (c # cs) f =
     (let (r, size) = DecodeRuneInString (c # cs)
      in if f r then TrimLeftFunc (drop size (c # cs)) f else c # cs)"
  by pat_completeness auto
termination
proof (relation "measure (\<lambda>(s, f). length s)", goal_cases)
  case 1
  show ?case by simp
next
  case (2 c cs f x r size)
  then have "size = snd (DecodeRuneInString (c # cs))" by (metis snd_conv)
  then have "1 \<le> size" by (simp add: DecodeRuneInString_def Let_def)
  then show ?case by simp
qed

function TrimRightFunc :: "string \<Rightarrow> (nat \<Rightarrow> bool) \<Rightarrow> string" where
  "TrimRightFunc s f =
     (if s = [] then []
      else
        (let (r, size) = DecodeLastRuneInString s
         in if f r then TrimRightFunc (take (length s - size) s) f else s))"
  by pat_completeness auto
termination
proof (relation "measure (\<lambda>(s, f). length s)", goal_cases)
  case 1
  show ?case by simp
next
  case (2 s f x r size)
  let ?n = "length s"
  define start where "start =
       (if 2 \<le> ?n \<and> RuneStart (s ! (?n - 2)) then ?n - 2
        else if 3 \<le> ?n \<and> RuneStart (s ! (?n - 3)) then ?n - 3
        else if 4 \<le> ?n \<and> RuneStart (s ! (?n - 4)) then ?n - 4
        else ?n - 5)"
  have lt: "start < ?n" using 2(1) by (auto simp: start_def)
  have "DecodeLastRuneInString s =
          (if byte (s ! (?n - 1)) < 0x80 then (byte (s ! (?n - 1)), 1)
           else if start + snd (DecodeRuneInString (drop start s)) \<noteq> ?n then (RuneError, 1)
           else DecodeRuneInString (drop start s))"
    using 2(1)
    by (simp add: DecodeLastRuneInString_def Let_def start_def [symmetric] split: prod.splits)
  moreover have "size = snd (DecodeLastRuneInString s)" using 2 by (metis snd_conv)
  ultimately have "1 \<le> size" using lt by (auto split: if_splits)
  then show ?case using 2(1) by simp
qed

definition TrimFunc :: "string \<Rightarrow> (nat \<Rightarrow> bool) \<Rightarrow> string" where
  "TrimFunc s f = TrimRightFunc (TrimLeftFunc s f) f"

text \<open>\<open>strings.TrimSpace\<close>: all leading and trailing white space removed, as defined by
  Unicode. The Go function walks over the bytes below \<open>80\<close> at both ends by the table
  \<open>asciiSpace\<close> and hands the rest to \<open>TrimFunc\<close> and \<open>TrimRightFunc\<close> with \<open>unicode.IsSpace\<close>
  once it meets a byte from \<open>80\<close> on; a byte below \<open>80\<close> is a rune of its own, white space by
  \<open>unicode.IsSpace\<close> exactly when the table has it, so this is \<open>TrimFunc\<close> on the whole
  string.\<close>

definition TrimSpace :: "string \<Rightarrow> string" where
  "TrimSpace s = TrimFunc s IsSpace"

text \<open>\<open>strings.Index\<close>: the index of the first occurrence of \<open>sub\<close>, or \<open>-1\<close>.\<close>

fun Index :: "string \<Rightarrow> string \<Rightarrow> int" where
  "Index [] sub = (if sub = [] then 0 else - 1)"
| "Index (c # cs) sub =
     (if HasPrefix (c # cs) sub then 0
      else (let r = Index cs sub in if r < 0 then - 1 else r + 1))"

text \<open>\<open>strings.Split\<close> at a separator of one byte (the sources split at \<open>"/"\<close> only): the
  pieces between the separators, one piece more than there are separators.\<close>

fun splitFrom :: "char \<Rightarrow> string \<Rightarrow> string \<Rightarrow> string list" where
  "splitFrom sep cur [] = [cur]"
| "splitFrom sep cur (c # cs) =
     (if c = sep then cur # splitFrom sep [] cs else splitFrom sep (cur @ [c]) cs)"

definition Split :: "string \<Rightarrow> char \<Rightarrow> string list" where
  "Split s sep = splitFrom sep [] s"

text \<open>\<open>strings.FieldsSeq\<close> yields the fields of a string one after the other: the
  substrings between runs of white space. Its loop goes through the string rune by rune: a
  byte below \<open>80\<close> is looked up in \<open>asciiSpace\<close> and has size 1, at any other byte the rune
  is decoded and asked \<open>unicode.IsSpace\<close>. The scan below keeps the field it is reading
  (\<open>cur\<close>, the bytes from \<open>start\<close> to \<open>i\<close>; empty between fields) and emits it at the next
  white space or at the end; \<open>FieldsSeq\<close> is the list of what the loops over it in the
  sources get, in order.\<close>

function fieldsFrom :: "string \<Rightarrow> string \<Rightarrow> string list" where
  "fieldsFrom cur [] = (if cur = [] then [] else [cur])"
| "fieldsFrom cur (c # cs) =
     (let (isSpace, size) =
            (if byte c < 0x80 then (asciiSpace c, 1)
             else (let (r, size) = DecodeRuneInString (c # cs) in (IsSpace r, size)))
      in if isSpace then
           (if cur = [] then fieldsFrom [] (drop size (c # cs))
            else cur # fieldsFrom [] (drop size (c # cs)))
         else fieldsFrom (cur @ take size (c # cs)) (drop size (c # cs)))"
  by pat_completeness auto
termination
proof (relation "measure (\<lambda>(cur, s). length s)", goal_cases)
  case 1
  show ?case by simp
next
  case (2 cur c cs x isSpace size)
  then have "size = 1 \<or> size = snd (DecodeRuneInString (c # cs))"
    by (auto split: if_splits prod.splits)
  then have "1 \<le> size" by (auto simp: DecodeRuneInString_def Let_def)
  then show ?case by simp
next
  case (3 cur c cs x isSpace size)
  then have "size = 1 \<or> size = snd (DecodeRuneInString (c # cs))"
    by (auto split: if_splits prod.splits)
  then have "1 \<le> size" by (auto simp: DecodeRuneInString_def Let_def)
  then show ?case by simp
next
  case (4 cur c cs x isSpace size)
  then have "size = 1 \<or> size = snd (DecodeRuneInString (c # cs))"
    by (auto split: if_splits prod.splits)
  then have "1 \<le> size" by (auto simp: DecodeRuneInString_def Let_def)
  then show ?case by simp
qed

definition FieldsSeq :: "string \<Rightarrow> string list" where
  "FieldsSeq s = fieldsFrom [] s"

text \<open>\<open>strings.Join\<close>.\<close>

fun Join :: "string list \<Rightarrow> string \<Rightarrow> string" where
  "Join [] sep = []"
| "Join [x] sep = x"
| "Join (x # y # ys) sep = x @ sep @ Join (y # ys) sep"

text \<open>The recursive equations are used where a proof or a computation asks for them.\<close>

declare fieldsFrom.simps(2) [simp del] TrimLeftFunc.simps(2) [simp del] TrimRightFunc.simps [simp del]


section \<open>Package git: remote URLs\<close>

text \<open>The five errors that \<open>ParseGitHubRepoFromUrl\<close> creates with \<open>errors.New\<close>, in the
  order of the source, and the four classes the specification sorts them into.\<close>

datatype parse_error =
    SSHMissingColonSeparator   \<comment> \<open>invalid SSH URL format: missing colon separator\<close>
  | SSHExpectedOwnerRepo       \<comment> \<open>invalid SSH URL format: expected owner/repo\<close>
  | HTTPSMissingPath           \<comment> \<open>invalid HTTPS URL format: missing path\<close>
  | HTTPSExpectedOwnerRepo     \<comment> \<open>invalid HTTPS URL format: expected owner/repo\<close>
  | UnsupportedURLFormat       \<comment> \<open>unsupported URL format: expected git@ or https:// prefix\<close>

datatype error_class = UnsupportedFormat | MissingColonSeparator | MissingPath | MalformedOwnerRepo

fun errorClass :: "parse_error \<Rightarrow> error_class" where
  "errorClass SSHMissingColonSeparator = MissingColonSeparator"
| "errorClass SSHExpectedOwnerRepo = MalformedOwnerRepo"
| "errorClass HTTPSMissingPath = MissingPath"
| "errorClass HTTPSExpectedOwnerRepo = MalformedOwnerRepo"
| "errorClass UnsupportedURLFormat = UnsupportedFormat"

text \<open>The check \<open>len(parts) != 2 || parts[0] == "" || parts[1] == ""\<close> and the two returns
  after it.\<close>

fun ownerRepo :: "parse_error \<Rightarrow> string list \<Rightarrow> string \<times> string \<times> parse_error option" where
  "ownerRepo e [p0, p1] = (if p0 = [] \<or> p1 = [] then ([], [], Some e) else (p0, p1, None))"
| "ownerRepo e parts = ([], [], Some e)"

text \<open>\<open>ParseGitHubRepoFromUrl\<close> returns owner, name and error; the error is \<open>None\<close> for
  Go's \<open>nil\<close>.\<close>

definition ParseGitHubRepoFromUrl :: "string \<Rightarrow> string \<times> string \<times> parse_error option" where
  "ParseGitHubRepoFromUrl url =
     (let remoteUrl = TrimSuffix (TrimSpace url) ''/'' in
      if HasPrefix remoteUrl ''git@'' then
        (let colonIdx = Index remoteUrl '':'' in
         if colonIdx = - 1 then ([], [], Some SSHMissingColonSeparator)
         else
           (let path0 = drop (nat (colonIdx + 1)) remoteUrl;
                path1 = TrimSuffix path0 ''.git'';
                path2 = TrimPrefix path1 ''/''
            in ownerRepo SSHExpectedOwnerRepo (Split path2 CHR ''/'')))
      else if HasPrefix remoteUrl ''https://'' \<or> HasPrefix remoteUrl ''http://'' then
        (let path = (if HasPrefix remoteUrl ''https://'' then TrimPrefix remoteUrl ''https://''
                     else TrimPrefix remoteUrl ''http://'');
             slashIdx = Index path ''/''
         in if slashIdx = - 1 then ([], [], Some HTTPSMissingPath)
            else
              (let path0 = drop (nat (slashIdx + 1)) path;
                   path1 = TrimSuffix path0 ''.git'';
                   path2 = TrimSuffix path1 ''/''
               in ownerRepo HTTPSExpectedOwnerRepo (Split path2 CHR ''/'')))
      else ([], [], Some UnsupportedURLFormat))"

text \<open>\<open>GetRepoShortName\<close>: \<open>CutPrefix\<close>, then \<open>CutSuffix\<close> on its result, both flags dropped.\<close>

definition GetRepoShortName :: "string \<Rightarrow> string" where
  "GetRepoShortName url =
     (let r = fst (CutPrefix url ''https://github.com/'');
          r' = fst (CutSuffix r ''.git'')
      in r')"


section \<open>Package section: scope state and query composition\<close>

text \<open>\<open>FilterTarget\<close>: which repository the search is scoped to.\<close>

datatype FilterTarget = FilterTargetOrigin | FilterTargetUpstream | FilterTargetNone

text \<open>The fields of \<open>BaseModel\<close> that the scope logic reads or writes. \<open>ConfigFilters\<close> is
  \<open>m.Config.Filters\<close>, the base filter of the persisted configuration.\<close>

record BaseModel =
  ConfigFilters :: string
  SearchValue :: string
  IsFilteredByCurrentRemote :: bool
  FilterTarget :: FilterTarget
  IsAuthorFilterRemoved :: bool
  CustomRepoFilter :: string

text \<open>What the model reads from outside itself at one call: the results of
  \<open>git.GetOriginUrl\<close> and \<open>git.GetUpstreamUrl\<close> on the repository directory of \<open>m.Ctx\<close>
  (\<open>None\<close> when they return an error), and the expansion of a search text by \<open>text/template\<close>,
  which \<open>enrichSearchWithTemplateVars\<close> runs with the time that \<open>time.Now()\<close> returns at that
  call (on a failure it returns the text itself). A text without template actions expands to
  itself at any time; two calls at different times are calls in two contexts.\<close>

record ProgramContext =
  OriginUrl :: "string option"
  UpstreamUrl :: "string option"
  ExpandTemplate :: "string \<Rightarrow> string"

definition enrichSearchWithTemplateVars :: "ProgramContext \<Rightarrow> BaseModel \<Rightarrow> string" where
  "enrichSearchWithTemplateVars ctx m = ExpandTemplate ctx (SearchValue m)"

definition isRepoToken :: "string \<Rightarrow> bool" where
  "isRepoToken token \<longleftrightarrow> HasPrefix token ''repo:''"

text \<open>\<open>fmt.Sprintf("%s/%s", owner, name)\<close>.\<close>

definition repoName :: "string \<Rightarrow> string \<Rightarrow> string" where
  "repoName owner name = owner @ ''/'' @ name"

text \<open>\<open>GetOriginRepo\<close> and \<open>GetUpstreamRepo\<close>: owner, name and whether the remote resolves.
  Both run the same two steps on the URL of their remote (no URL, or a URL that does not
  parse, gives two empty strings and false); the steps are written once, as \<open>resolveRepo\<close>.\<close>

definition resolveRepo :: "string option \<Rightarrow> string \<times> string \<times> bool" where
  "resolveRepo r =
     (case r of
        None \<Rightarrow> ([], [], False)
      | Some url \<Rightarrow>
          (case ParseGitHubRepoFromUrl url of
             (owner, name, None) \<Rightarrow> (owner, name, True)
           | (owner, name, Some err) \<Rightarrow> ([], [], False)))"

definition GetOriginRepo :: "ProgramContext \<Rightarrow> string \<times> string \<times> bool" where
  "GetOriginRepo ctx = resolveRepo (OriginUrl ctx)"

definition GetUpstreamRepo :: "ProgramContext \<Rightarrow> string \<times> string \<times> bool" where
  "GetUpstreamRepo ctx = resolveRepo (UpstreamUrl ctx)"

definition HasUpstreamRemote :: "ProgramContext \<Rightarrow> bool" where
  "HasUpstreamRemote ctx = (case GetUpstreamRepo ctx of (owner, name, hasUpstream) \<Rightarrow> hasUpstream)"

text \<open>The loops over \<open>strings.FieldsSeq\<close> that return at the first token with the prefix
  \<open>repo:\<close>.\<close>

fun anyRepoToken :: "string list \<Rightarrow> bool" where
  "anyRepoToken [] = False"
| "anyRepoToken (token # rest) = (if HasPrefix token ''repo:'' then True else anyRepoToken rest)"

definition HasRepoNameInConfiguredFilter :: "BaseModel \<Rightarrow> bool" where
  "HasRepoNameInConfiguredFilter m = anyRepoToken (FieldsSeq (ConfigFilters m))"

fun repoFilterTokenValue :: "string list \<Rightarrow> string \<times> bool" where
  "repoFilterTokenValue [] = ([], False)"
| "repoFilterTokenValue (token # rest) =
     (if HasPrefix token ''repo:'' then (TrimPrefix token ''repo:'', True)
      else repoFilterTokenValue rest)"

definition getRepoFilterTokenValue :: "string \<Rightarrow> string \<times> bool" where
  "getRepoFilterTokenValue searchValue = repoFilterTokenValue (FieldsSeq searchValue)"

text \<open>The loop that collects the tokens without the prefix \<open>repo:\<close>, joined by one space
  (\<open>StripRepoFilterTokens\<close>; \<open>GetSearchValue\<close> and \<open>applyRepoFilter\<close> repeat it inline).\<close>

definition StripRepoFilterTokens :: "string \<Rightarrow> string" where
  "StripRepoFilterTokens searchValue =
     Join (filter (\<lambda>token. \<not> HasPrefix token ''repo:'') (FieldsSeq searchValue)) '' ''"

definition applyAuthorFilter :: "BaseModel \<Rightarrow> string \<Rightarrow> string" where
  "applyAuthorFilter m searchValue =
     (if \<not> IsAuthorFilterRemoved m then searchValue
      else Join (filter (\<lambda>token. token \<noteq> ''author:@me'') (FieldsSeq searchValue)) '' '')"

definition applyRepoFilter :: "BaseModel \<Rightarrow> string \<Rightarrow> string \<Rightarrow> string" where
  "applyRepoFilter m searchValue repoFilter =
     (let searchValueWithoutRepoFilter = StripRepoFilterTokens searchValue;
          result =
            (if repoFilter = [] then searchValueWithoutRepoFilter
             else if searchValueWithoutRepoFilter = [] then ''repo:'' @ repoFilter
             else ''repo:'' @ repoFilter @ '' '' @ searchValueWithoutRepoFilter)
      in applyAuthorFilter m result)"

text \<open>\<open>hasManualRepoFilter\<close>: the first \<open>repo:\<close> token decides.\<close>

fun manualRepoFilter :: "ProgramContext \<Rightarrow> BaseModel \<Rightarrow> string list \<Rightarrow> bool" where
  "manualRepoFilter ctx m [] = False"
| "manualRepoFilter ctx m (token # rest) =
     (if HasPrefix token ''repo:'' then
        (let repoValue = TrimPrefix token ''repo:'' in
         case GetOriginRepo ctx of (originOwner, originName, hasOrigin) \<Rightarrow>
           if \<not> hasOrigin then True
           else if repoValue = repoName originOwner originName
                   \<and> FilterTarget m = FilterTargetOrigin then False
           else
             (case GetUpstreamRepo ctx of (upstreamOwner, upstreamName, hasUpstream) \<Rightarrow>
                if hasUpstream \<and> repoValue = repoName upstreamOwner upstreamName
                   \<and> FilterTarget m = FilterTargetUpstream then False
                else True))
      else manualRepoFilter ctx m rest)"

definition hasManualRepoFilter :: "ProgramContext \<Rightarrow> BaseModel \<Rightarrow> string \<Rightarrow> bool" where
  "hasManualRepoFilter ctx m searchValue = manualRepoFilter ctx m (FieldsSeq searchValue)"

text \<open>\<open>GetSearchValue\<close>, the composer. \<open>fmt.Sprintf("repo:%s/%s %s", owner, name, rest)\<close> is
  written out as a concatenation.\<close>

definition GetSearchValue :: "ProgramContext \<Rightarrow> BaseModel \<Rightarrow> string" where
  "GetSearchValue ctx m =
     (let searchValue = enrichSearchWithTemplateVars ctx m in
      if CustomRepoFilter m \<noteq> [] then applyRepoFilter m searchValue (CustomRepoFilter m)
      else
        (case GetOriginRepo ctx of (originOwner, originName, hasOrigin) \<Rightarrow>
           if \<not> hasOrigin then applyAuthorFilter m searchValue
           else if HasRepoNameInConfiguredFilter m then applyAuthorFilter m searchValue
           else if hasManualRepoFilter ctx m searchValue then applyAuthorFilter m searchValue
           else
             (let searchValueWithoutRepoFilter = StripRepoFilterTokens searchValue;
                  result =
                    (case FilterTarget m of
                       FilterTargetOrigin \<Rightarrow>
                         ''repo:'' @ originOwner @ ''/'' @ originName @ '' ''
                           @ searchValueWithoutRepoFilter
                     | FilterTargetUpstream \<Rightarrow>
                         (case GetUpstreamRepo ctx of (upstreamOwner, upstreamName, hasUpstream) \<Rightarrow>
                            if hasUpstream then
                              ''repo:'' @ upstreamOwner @ ''/'' @ upstreamName @ '' ''
                                @ searchValueWithoutRepoFilter
                            else
                              ''repo:'' @ originOwner @ ''/'' @ originName @ '' ''
                                @ searchValueWithoutRepoFilter)
                     | FilterTargetNone \<Rightarrow> searchValueWithoutRepoFilter)
              in applyAuthorFilter m result)))"

text \<open>The mutators. Each returns the updated model.\<close>

definition ToggleFilterTarget :: "ProgramContext \<Rightarrow> BaseModel \<Rightarrow> BaseModel" where
  "ToggleFilterTarget ctx m =
     (if HasRepoNameInConfiguredFilter m then m
      else
        (let hasUpstream = HasUpstreamRemote ctx;
             target =
               (case FilterTarget m of
                  FilterTargetOrigin \<Rightarrow>
                    if hasUpstream then FilterTargetUpstream else FilterTargetNone
                | FilterTargetUpstream \<Rightarrow> FilterTargetNone
                | FilterTargetNone \<Rightarrow> FilterTargetOrigin)
         in m\<lparr>FilterTarget := target, IsFilteredByCurrentRemote := (target \<noteq> FilterTargetNone)\<rparr>))"

definition ToggleAuthorFilter :: "BaseModel \<Rightarrow> BaseModel" where
  "ToggleAuthorFilter m = m\<lparr>IsAuthorFilterRemoved := \<not> IsAuthorFilterRemoved m\<rparr>"

definition SyncRepoFilterStateFromSearchValue :: "ProgramContext \<Rightarrow> BaseModel \<Rightarrow> BaseModel" where
  "SyncRepoFilterStateFromSearchValue ctx m =
     (case getRepoFilterTokenValue (SearchValue m) of (repoValue, ok) \<Rightarrow>
        if \<not> ok \<or> repoValue = [] then
          m\<lparr>CustomRepoFilter := [], FilterTarget := FilterTargetNone,
            IsFilteredByCurrentRemote := False\<rparr>
        else
          (case GetOriginRepo ctx of (originOwner, originName, hasOrigin) \<Rightarrow>
             if hasOrigin \<and> repoValue = repoName originOwner originName then
               m\<lparr>CustomRepoFilter := [], FilterTarget := FilterTargetOrigin,
                 IsFilteredByCurrentRemote := True\<rparr>
             else
               (case GetUpstreamRepo ctx of (upstreamOwner, upstreamName, hasUpstream) \<Rightarrow>
                  if hasUpstream \<and> repoValue = repoName upstreamOwner upstreamName then
                    m\<lparr>CustomRepoFilter := [], FilterTarget := FilterTargetUpstream,
                      IsFilteredByCurrentRemote := True\<rparr>
                  else
                    m\<lparr>CustomRepoFilter := repoValue, FilterTarget := FilterTargetNone,
                      IsFilteredByCurrentRemote := True\<rparr>)))"

section \<open>Notions used in the statements\<close>

text \<open>A string without white space: no white-space rune starts at any of its bytes. A token
  is what \<open>FieldsSeq\<close> yields: a non-empty string without white space, which is a string that
  is its own single field (lemma \<open>isToken_iff\<close>).\<close>

fun noSpace :: "string \<Rightarrow> bool" where
  "noSpace [] \<longleftrightarrow> True"
| "noSpace (c # cs) \<longleftrightarrow> \<not> startsWithSpace (c # cs) \<and> noSpace cs"

definition isToken :: "string \<Rightarrow> bool" where
  "isToken t \<longleftrightarrow> t \<noteq> [] \<and> noSpace t"

text \<open>A string of white space only: nothing is left when the white space at its start is
  trimmed.\<close>

definition whiteSpace :: "string \<Rightarrow> bool" where
  "whiteSpace s \<longleftrightarrow> TrimLeftFunc s IsSpace = []"

text \<open>A repo filter equals the origin (upstream) identity written \<open>owner/name\<close>, and that
  remote resolves.\<close>

definition originMatches :: "ProgramContext \<Rightarrow> string \<Rightarrow> bool" where
  "originMatches ctx v =
     (case GetOriginRepo ctx of (owner, name, hasOrigin) \<Rightarrow> hasOrigin \<and> v = repoName owner name)"

definition upstreamMatches :: "ProgramContext \<Rightarrow> string \<Rightarrow> bool" where
  "upstreamMatches ctx v =
     (case GetUpstreamRepo ctx of (owner, name, hasUpstream) \<Rightarrow>
        hasUpstream \<and> v = repoName owner name)"

text \<open>A path of exactly two non-empty segments: one slash, neither first nor last.\<close>

definition twoSegments :: "string \<Rightarrow> bool" where
  "twoSegments p \<longleftrightarrow>
     length (filter (\<lambda>c. c = CHR ''/'') p) = 1 \<and> p \<noteq> [] \<and> hd p \<noteq> CHR ''/''
     \<and> last p \<noteq> CHR ''/''"

text \<open>The class of the error in a result of \<open>ParseGitHubRepoFromUrl\<close>, if there is one.\<close>

definition errorClassOf :: "string \<times> string \<times> parse_error option \<Rightarrow> error_class option" where
  "errorClassOf r = (case r of (owner, name, err) \<Rightarrow> map_option errorClass err)"

text \<open>The tokens of a search text that are left when the \<open>repo:\<close> tokens are taken out and,
  if the author filter is removed, the tokens \<open>author:@me\<close> too.\<close>

definition remainingTokens :: "BaseModel \<Rightarrow> string \<Rightarrow> string list" where
  "remainingTokens m searchValue =
     filter (\<lambda>token. \<not> isRepoToken token
                      \<and> (IsAuthorFilterRemoved m \<longrightarrow> token \<noteq> ''author:@me''))
       (FieldsSeq searchValue)"


text \<open>Compose, synchronize from the composed query, and put the original text back: the
  model from which the second composition starts.\<close>

definition resynced :: "ProgramContext \<Rightarrow> BaseModel \<Rightarrow> BaseModel" where
  "resynced ctx m =
     (SyncRepoFilterStateFromSearchValue ctx (m\<lparr>SearchValue := GetSearchValue ctx m\<rparr>))
       \<lparr>SearchValue := SearchValue m\<rparr>"

text \<open>Concrete inputs: a clone whose only remote is the origin \<open>acme/widgets\<close>, a fork that
  also has the upstream \<open>upstream/widgets\<close> (texts without template actions, so the
  expansion is the identity), and a section scoped to the origin with the search text
  \<open>is:open author:@me\<close>.\<close>

definition ctxOrigin :: ProgramContext where
  "ctxOrigin = \<lparr>OriginUrl = Some ''git@github.com:acme/widgets.git'', UpstreamUrl = None,
                ExpandTemplate = id\<rparr>"

definition ctxFork :: ProgramContext where
  "ctxFork = \<lparr>OriginUrl = Some ''git@github.com:acme/widgets.git'',
              UpstreamUrl = Some ''https://github.com/upstream/widgets'', ExpandTemplate = id\<rparr>"

definition modelOrigin :: BaseModel where
  "modelOrigin = \<lparr>ConfigFilters = ''is:open'', SearchValue = ''is:open author:@me'',
     IsFilteredByCurrentRemote = True, FilterTarget = FilterTargetOrigin,
     IsAuthorFilterRemoved = False, CustomRepoFilter = []\<rparr>"


section \<open>Lemmas\<close>

subsection \<open>Runes\<close>

text \<open>A rune of a non-empty string is at least one byte wide, and no wider than the string.
  The decoder does not depend on the bytes after a white-space rune, nor on the bytes from
  the next rune start on. Inside a rune there are continuation bytes only, and none of them
  starts a white-space rune.\<close>

lemma list4_cases:
  obtains "a = []" | c0 where "a = [c0]" | c0 c1 where "a = [c0, c1]"
    | c0 c1 c2 where "a = [c0, c1, c2]" | c0 c1 c2 c3 t where "a = c0 # c1 # c2 # c3 # t"
proof (cases a)
  case Nil
  then show ?thesis using that by simp
next
  case (Cons c0 a1)
  note a = this
  show ?thesis
  proof (cases a1)
    case Nil
    with a show ?thesis using that by simp
  next
    case (Cons c1 a2)
    note a1 = this
    show ?thesis
    proof (cases a2)
      case Nil
      with a a1 show ?thesis using that by simp
    next
      case (Cons c2 a3)
      then show ?thesis using a a1 that by (cases a3) simp_all
    qed
  qed
qed

lemma Decode_Cons:
  "DecodeRuneInString (c0 # t) =
     (if byte c0 < 0x80 then (byte c0, 1)
      else if byte c0 < 0xC2 \<or> 0xF4 < byte c0 then (RuneError, 1)
      else case t of [] \<Rightarrow> (RuneError, 1)
        | c1 # t1 \<Rightarrow>
           if byte c1 < acceptLo (byte c0) \<or> acceptHi (byte c0) < byte c1 then (RuneError, 1)
           else if byte c0 < 0xE0 then ((byte c0 mod 32) * 64 + byte c1 mod 64, 2)
           else case t1 of [] \<Rightarrow> (RuneError, 1)
             | c2 # t2 \<Rightarrow>
                if byte c2 < 0x80 \<or> 0xBF < byte c2 then (RuneError, 1)
                else if byte c0 < 0xF0 then
                  ((byte c0 mod 16) * 4096 + (byte c1 mod 64) * 64 + byte c2 mod 64, 3)
                else case t2 of [] \<Rightarrow> (RuneError, 1)
                  | c3 # t3 \<Rightarrow>
                     if byte c3 < 0x80 \<or> 0xBF < byte c3 then (RuneError, 1)
                     else ((byte c0 mod 8) * 262144 + (byte c1 mod 64) * 4096
                             + (byte c2 mod 64) * 64 + byte c3 mod 64, 4))"
  by (cases t rule: list4_cases)
     (auto simp: DecodeRuneInString_def Let_def runeSize_def)

lemma Decode_ascii: "byte c < 0x80 \<Longrightarrow> DecodeRuneInString (c # s) = (byte c, 1)"
  by (simp add: Decode_Cons)

lemma runeWidth_bounds: "s \<noteq> [] \<Longrightarrow> 1 \<le> runeWidth s \<and> runeWidth s \<le> length s"
  by (cases s rule: list4_cases) (auto simp: runeWidth_def Decode_Cons)

lemma DecodeLast_start:
  assumes "s \<noteq> []" "\<not> byte (last s) < 0x80"
  shows "\<exists>start < length s. DecodeLastRuneInString s =
           (if start + snd (DecodeRuneInString (drop start s)) \<noteq> length s then (RuneError, 1)
            else DecodeRuneInString (drop start s))"
proof -
  let ?n = "length s"
  define start where "start =
       (if 2 \<le> ?n \<and> RuneStart (s ! (?n - 2)) then ?n - 2
        else if 3 \<le> ?n \<and> RuneStart (s ! (?n - 3)) then ?n - 3
        else if 4 \<le> ?n \<and> RuneStart (s ! (?n - 4)) then ?n - 4
        else ?n - 5)"
  have "start < ?n" using assms(1) by (auto simp: start_def)
  moreover have "DecodeLastRuneInString s =
           (if start + snd (DecodeRuneInString (drop start s)) \<noteq> length s then (RuneError, 1)
            else DecodeRuneInString (drop start s))"
    using assms
    by (simp add: DecodeLastRuneInString_def Let_def start_def [symmetric] last_conv_nth
        split: prod.splits)
  ultimately show ?thesis by blast
qed

lemma DecodeLast_ascii:
  "s \<noteq> [] \<Longrightarrow> byte (last s) < 0x80 \<Longrightarrow> DecodeLastRuneInString s = (byte (last s), 1)"
  by (simp add: DecodeLastRuneInString_def Let_def last_conv_nth)

lemma DecodeLast_size:
  assumes "s \<noteq> []"
  shows "1 \<le> snd (DecodeLastRuneInString s) \<and> snd (DecodeLastRuneInString s) \<le> length s"
proof (cases "byte (last s) < 0x80")
  case True
  then show ?thesis using assms by (cases s) (simp_all add: DecodeLast_ascii)
next
  case False
  from DecodeLast_start [OF assms False] obtain start where
    "start < length s" and "DecodeLastRuneInString s =
           (if start + snd (DecodeRuneInString (drop start s)) \<noteq> length s then (RuneError, 1)
            else DecodeRuneInString (drop start s))" by blast
  then show ?thesis using assms by (cases s) (auto split: if_splits)
qed

lemma accept_bounds: "0x80 \<le> acceptLo b" "acceptHi b \<le> 0xBF"
  by (simp_all add: acceptLo_def acceptHi_def)

lemma IsSpace_RuneError [simp]: "\<not> IsSpace RuneError"
  by (simp add: IsSpace_def RuneError_def)

lemma Decode_Nil [simp]: "DecodeRuneInString [] = (RuneError, 0)"
  by (simp add: DecodeRuneInString_def)

lemma byte_ascii_space:
  "byte (CHR 0x09) = 9" "byte (CHR 0x0A) = 10" "byte (CHR 0x0B) = 11" "byte (CHR 0x0C) = 12"
  "byte (CHR 0x0D) = 13" "byte CHR '' '' = 32"
  by (simp_all add: byte_def)

lemma asciiSpace_byte:
  "asciiSpace c \<longleftrightarrow>
     byte c = 9 \<or> byte c = 10 \<or> byte c = 11 \<or> byte c = 12 \<or> byte c = 13 \<or> byte c = 32"
proof -
  have e: "(c = d) = (byte c = byte d)" for d by (simp add: byte_def)
  show ?thesis
    unfolding asciiSpace_def e byte_ascii_space ..
qed

lemma IsSpace_ascii: "byte c < 0x80 \<Longrightarrow> IsSpace (byte c) \<longleftrightarrow> asciiSpace c"
  by (auto simp: IsSpace_def asciiSpace_byte)

lemma Decode_start_context:
  "a \<noteq> [] \<Longrightarrow> RuneStart c \<Longrightarrow> DecodeRuneInString (a @ c # r) = DecodeRuneInString a"
  using accept_bounds [of "byte (hd a)"]
  by (cases a rule: list4_cases) (auto simp: Decode_Cons RuneStart_def)

lemma Decode_ascii_context:
  "a \<noteq> [] \<Longrightarrow> byte c < 0x80 \<Longrightarrow> DecodeRuneInString (a @ c # r) = DecodeRuneInString a"
  by (rule Decode_start_context) (simp_all add: RuneStart_def)

lemma Decode_space_context:
  "startsWithSpace a \<Longrightarrow> DecodeRuneInString (a @ b) = DecodeRuneInString a"
  by (cases a rule: list4_cases) (auto simp: startsWithSpace_def Decode_Cons)

lemma space_take:
  "startsWithSpace s \<Longrightarrow> DecodeRuneInString (take (runeWidth s) s) = DecodeRuneInString s"
  by (cases s rule: list4_cases) (auto simp: startsWithSpace_def runeWidth_def Decode_Cons)

lemma runeWidth_le4: "runeWidth s \<le> 4"
  by (cases s rule: list4_cases) (auto simp: runeWidth_def Decode_Cons)

lemma rune_byte1:
  "1 < runeWidth s \<Longrightarrow> 0x80 \<le> byte (s ! 1) \<and> byte (s ! 1) \<le> 0xBF"
  using accept_bounds [of "byte (hd s)"]
  by (cases s rule: list4_cases) (auto simp: runeWidth_def Decode_Cons split: if_splits)

lemma rune_byte2:
  "2 < runeWidth s \<Longrightarrow> 0x80 \<le> byte (s ! 2) \<and> byte (s ! 2) \<le> 0xBF"
  by (cases s rule: list4_cases) (auto simp: runeWidth_def Decode_Cons split: if_splits)

lemma rune_byte3:
  "3 < runeWidth s \<Longrightarrow> 0x80 \<le> byte (s ! 3) \<and> byte (s ! 3) \<le> 0xBF"
  by (cases s rule: list4_cases) (auto simp: runeWidth_def Decode_Cons split: if_splits)

lemma rune_byte0:
  "1 < runeWidth s \<Longrightarrow> 0xC2 \<le> byte (s ! 0)"
  by (cases s rule: list4_cases) (auto simp: runeWidth_def Decode_Cons split: if_splits)

lemma continuation_not_space:
  "0x80 \<le> byte c \<Longrightarrow> byte c \<le> 0xBF \<Longrightarrow> \<not> startsWithSpace (c # s)"
  by (simp add: startsWithSpace_def Decode_Cons)

lemma inside_rune:
  assumes "0 < j" "j < runeWidth s"
  shows "\<not> startsWithSpace (drop j s)"
proof -
  have "s \<noteq> []" using assms by (auto simp: runeWidth_def)
  then have len: "j < length s" using runeWidth_bounds [of s] assms by simp
  have "j = 1 \<or> j = 2 \<or> j = 3" using assms runeWidth_le4 [of s] by arith
  then have "0x80 \<le> byte (s ! j) \<and> byte (s ! j) \<le> 0xBF"
    using assms rune_byte1 [of s] rune_byte2 [of s] rune_byte3 [of s] by auto
  moreover have "drop j s = s ! j # drop (Suc j) s" using len by (simp add: Cons_nth_drop_Suc)
  ultimately show ?thesis by (simp add: continuation_not_space)
qed


subsection \<open>White space\<close>

text \<open>White space at the start of a string, and strings without white space.\<close>

lemma asciiSpace_ascii: "asciiSpace c \<Longrightarrow> byte c < 0x80"
  by (auto simp: asciiSpace_byte)

lemma startsWithSpace_ascii: "byte c < 0x80 \<Longrightarrow> startsWithSpace (c # s) \<longleftrightarrow> asciiSpace c"
  by (simp add: startsWithSpace_def Decode_ascii IsSpace_ascii)

lemma runeWidth_ascii: "byte c < 0x80 \<Longrightarrow> runeWidth (c # s) = 1"
  by (simp add: runeWidth_def Decode_ascii)

lemma startsWithSpace_Nil [simp]: "\<not> startsWithSpace []"
  by (simp add: startsWithSpace_def)

lemma startsWithSpace_append: "startsWithSpace a \<Longrightarrow> startsWithSpace (a @ b)"
  by (simp add: startsWithSpace_def Decode_space_context)


lemma startsWithSpace_RuneStart: "startsWithSpace (c # s) \<Longrightarrow> RuneStart c"
  by (auto simp: startsWithSpace_def Decode_Cons RuneStart_def split: if_splits)

lemma noSpace_ascii_Cons:
  "byte c < 0x80 \<Longrightarrow> noSpace (c # s) \<longleftrightarrow> \<not> asciiSpace c \<and> noSpace s"
  by (simp add: startsWithSpace_ascii)

lemma noSpace_iff: "noSpace s \<longleftrightarrow> (\<forall>i < length s. \<not> startsWithSpace (drop i s))"
  by (induction s) (auto simp: less_Suc_eq_0_disj)

lemma noSpace_drop: "noSpace s \<Longrightarrow> noSpace (drop n s)"
proof (induction s arbitrary: n)
  case Nil
  then show ?case by simp
next
  case (Cons c s)
  show ?case
  proof (cases n)
    case 0
    with Cons.prems show ?thesis by simp
  next
    case (Suc n')
    with Cons show ?thesis by simp
  qed
qed

lemma drop_take_drop: "j \<le> k \<Longrightarrow> k \<le> length s \<Longrightarrow> drop j (take k s) @ drop k s = drop j s"
  using drop_append [of j "take k s" "drop k s"] by simp

lemma noSpace_not_starts: "noSpace s \<Longrightarrow> \<not> startsWithSpace s"
  by (cases s) simp_all



subsection \<open>FieldsSeq and Join\<close>

text \<open>The fields of a text are tokens; joining tokens by single spaces and splitting
  again gives the tokens back.\<close>

lemma fieldsFrom_Cons:
  "fieldsFrom cur (c # cs) =
     (if startsWithSpace (c # cs) then
        (if cur = [] then fieldsFrom [] (drop (runeWidth (c # cs)) (c # cs))
         else cur # fieldsFrom [] (drop (runeWidth (c # cs)) (c # cs)))
      else fieldsFrom (cur @ take (runeWidth (c # cs)) (c # cs)) (drop (runeWidth (c # cs)) (c # cs)))"
  by (auto simp: fieldsFrom.simps(2) startsWithSpace_def runeWidth_def Decode_ascii IsSpace_ascii
      split: prod.splits)

lemma fieldsFrom_word:
  "noSpace w \<Longrightarrow> rest = [] \<or> byte (hd rest) < 0x80 \<Longrightarrow>
     fieldsFrom cur (w @ rest) = fieldsFrom (cur @ w) rest"
proof (induction "length w" arbitrary: w cur rule: less_induct)
  case less
  show ?case
  proof (cases w)
    case Nil
    then show ?thesis by simp
  next
    case (Cons c cs)
    let ?k = "runeWidth w"
    have dec: "DecodeRuneInString (w @ rest) = DecodeRuneInString w"
    proof (cases rest)
      case Nil
      then show ?thesis by simp
    next
      case (Cons r0 r')
      with less.prems(2) have "byte r0 < 0x80" by simp
      then show ?thesis using Decode_ascii_context [of w r0 r'] \<open>w = c # cs\<close> Cons by simp
    qed
    have "\<not> startsWithSpace w" using less.prems(1) by (rule noSpace_not_starts)
    then have ns: "\<not> startsWithSpace (w @ rest)" by (simp add: startsWithSpace_def dec)
    have k: "runeWidth (w @ rest) = ?k" by (simp add: runeWidth_def dec)
    have kb: "1 \<le> ?k" "?k \<le> length w" using runeWidth_bounds [of w] Cons by simp_all
    have "fieldsFrom cur (w @ rest) =
            fieldsFrom (cur @ take (runeWidth (w @ rest)) (w @ rest))
              (drop (runeWidth (w @ rest)) (w @ rest))"
      using fieldsFrom_Cons [of cur c "cs @ rest"] ns Cons by simp
    then have "fieldsFrom cur (w @ rest) = fieldsFrom (cur @ take ?k w) (drop ?k w @ rest)"
      unfolding k using kb by simp
    also have "\<dots> = fieldsFrom ((cur @ take ?k w) @ drop ?k w) rest"
      using kb Cons less.prems by (intro less.hyps) (simp_all add: noSpace_drop)
    finally show ?thesis by simp
  qed
qed

lemma fieldsFrom_tokens:
  "\<forall>i < length cur. \<not> startsWithSpace (drop i cur @ s) \<Longrightarrow> t \<in> set (fieldsFrom cur s) \<Longrightarrow>
     isToken t"
proof (induction "length s" arbitrary: s cur rule: less_induct)
  case less
  have cur: "noSpace cur"
    unfolding noSpace_iff using less.prems(1) startsWithSpace_append by blast
  show ?case
  proof (cases s)
    case Nil
    with less.prems(2) cur show ?thesis by (auto simp: isToken_def split: if_splits)
  next
    case (Cons c cs)
    let ?k = "runeWidth s"
    have kb: "1 \<le> ?k" "?k \<le> length s" using runeWidth_bounds [of s] Cons by simp_all
    show ?thesis
    proof (cases "startsWithSpace s")
      case True
      with less.prems(2) Cons have "t = cur \<and> cur \<noteq> [] \<or> t \<in> set (fieldsFrom [] (drop ?k s))"
        by (auto simp: fieldsFrom_Cons split: if_splits)
      then show ?thesis
      proof
        assume "t = cur \<and> cur \<noteq> []"
        with cur show ?thesis by (simp add: isToken_def)
      next
        assume "t \<in> set (fieldsFrom [] (drop ?k s))"
        then show ?thesis using kb Cons by (intro less.hyps [of "drop ?k s" "[]"]) simp_all
      qed
    next
      case False
      with less.prems(2) Cons have t: "t \<in> set (fieldsFrom (cur @ take ?k s) (drop ?k s))"
        by (simp add: fieldsFrom_Cons)
      have inv: "\<not> startsWithSpace (drop i (cur @ take ?k s) @ drop ?k s)"
        if "i < length (cur @ take ?k s)" for i
      proof (cases "i < length cur")
        case True
        then show ?thesis using less.prems(1) by simp
      next
        case ge: False
        define j where "j = i - length cur"
        have j: "j < ?k" using that ge kb by (simp add: j_def)
        have "drop i (cur @ take ?k s) @ drop ?k s = drop j (take ?k s) @ drop ?k s"
          using ge by (simp add: j_def)
        also have "\<dots> = drop j s" using j kb by (simp add: drop_take_drop)
        finally have eq: "drop i (cur @ take ?k s) @ drop ?k s = drop j s" .
        show ?thesis
        proof (cases "j = 0")
          case True
          with eq False show ?thesis by simp
        next
          case False
          then show ?thesis unfolding eq using inside_rune [of j s] j by simp
        qed
      qed
      show ?thesis using kb Cons inv t by (intro less.hyps [of "drop ?k s" "cur @ take ?k s"]) simp_all
    qed
  qed
qed

lemma FieldsSeq_tokens: "t \<in> set (FieldsSeq s) \<Longrightarrow> isToken t"
  using fieldsFrom_tokens [of "[]" s t] by (simp add: FieldsSeq_def)

lemma FieldsSeq_Nil [simp]: "FieldsSeq [] = []"
  by (simp add: FieldsSeq_def)

lemma FieldsSeq_token_space:
  assumes "isToken w" "asciiSpace c"
  shows "FieldsSeq (w @ c # s) = w # FieldsSeq s"
proof -
  have a: "byte c < 0x80" using assms(2) by (rule asciiSpace_ascii)
  have "fieldsFrom [] (w @ c # s) = fieldsFrom w (c # s)"
    using fieldsFrom_word [of w "c # s" "[]"] assms(1) a by (simp add: isToken_def)
  also have "\<dots> = w # fieldsFrom [] s"
    using assms a by (simp add: fieldsFrom_Cons startsWithSpace_ascii runeWidth_ascii isToken_def)
  finally show ?thesis by (simp add: FieldsSeq_def)
qed

lemma FieldsSeq_token: "isToken w \<Longrightarrow> FieldsSeq w = [w]"
  using fieldsFrom_word [of w "[]" "[]"] by (simp add: FieldsSeq_def isToken_def)

lemma isToken_iff: "isToken s \<longleftrightarrow> FieldsSeq s = [s]"
proof
  assume "isToken s"
  then show "FieldsSeq s = [s]" by (rule FieldsSeq_token)
next
  assume "FieldsSeq s = [s]"
  then have "s \<in> set (FieldsSeq s)" by simp
  then show "isToken s" by (rule FieldsSeq_tokens)
qed

lemma asciiSpace_blank [simp]: "asciiSpace CHR '' ''"
  by (simp add: asciiSpace_def)

lemma FieldsSeq_Join: "list_all isToken ts \<Longrightarrow> FieldsSeq (Join ts '' '') = ts"
proof (induction ts "'' ''" rule: Join.induct)
  case 1
  then show ?case by simp
next
  case (2 x)
  then show ?case by (simp add: FieldsSeq_token)
next
  case (3 x y ys)
  then show ?case by (simp add: FieldsSeq_token_space)
qed

lemma FieldsSeq_Join_filter:
  "FieldsSeq (Join (filter P (FieldsSeq s)) '' '') = filter P (FieldsSeq s)"
  by (rule FieldsSeq_Join) (auto simp: list_all_iff dest: FieldsSeq_tokens)


lemma tokens_filter_FieldsSeq [simp]: "list_all isToken (filter P (FieldsSeq s))"
  by (auto simp: list_all_iff dest: FieldsSeq_tokens)

lemma tokens_FieldsSeq [simp]: "list_all isToken (FieldsSeq s)"
  by (auto simp: list_all_iff dest: FieldsSeq_tokens)




subsection \<open>Trimming white space\<close>

text \<open>\<open>TrimSpace\<close> takes a run of white space off each end, and leaves alone a string
  that neither starts nor ends with white space, such as tokens joined by single spaces.\<close>

lemma TrimRightFunc_Nil [simp]: "TrimRightFunc [] f = []"
  by (simp add: TrimRightFunc.simps)

lemma TrimRightFunc_eval:
  "s \<noteq> [] \<Longrightarrow> TrimRightFunc s f =
     (let (r, size) = DecodeLastRuneInString s
      in if f r then TrimRightFunc (take (length s - size) s) f else s)"
  by (subst TrimRightFunc.simps) simp

lemma TrimLeft_step:
  "s \<noteq> [] \<Longrightarrow> TrimLeftFunc s IsSpace =
     (if startsWithSpace s then TrimLeftFunc (drop (runeWidth s) s) IsSpace else s)"
  by (cases s)
     (simp_all add: TrimLeftFunc.simps(2) startsWithSpace_def runeWidth_def split: prod.splits)

lemma TrimLeft_id: "\<not> startsWithSpace s \<Longrightarrow> TrimLeftFunc s IsSpace = s"
  by (cases "s = []") (simp_all add: TrimLeft_step)

lemma whiteSpace_Nil [simp]: "whiteSpace []"
  by (simp add: whiteSpace_def)

lemma whiteSpace_step:
  "s \<noteq> [] \<Longrightarrow> whiteSpace s \<longleftrightarrow> startsWithSpace s \<and> whiteSpace (drop (runeWidth s) s)"
  by (simp add: whiteSpace_def TrimLeft_step)

lemma TrimLeft_spaces:
  "whiteSpace pre \<Longrightarrow> TrimLeftFunc (pre @ s) IsSpace = TrimLeftFunc s IsSpace"
proof (induction "length pre" arbitrary: pre rule: less_induct)
  case less
  show ?case
  proof (cases "pre = []")
    case True
    then show ?thesis by simp
  next
    case False
    let ?k = "runeWidth pre"
    from less.prems False have sp: "startsWithSpace pre" and rest: "whiteSpace (drop ?k pre)"
      by (simp_all add: whiteSpace_step)
    have dec: "DecodeRuneInString (pre @ s) = DecodeRuneInString pre"
      using sp by (rule Decode_space_context)
    have kb: "1 \<le> ?k" "?k \<le> length pre" using runeWidth_bounds [OF False] by simp_all
    have "TrimLeftFunc (pre @ s) IsSpace = TrimLeftFunc (drop ?k (pre @ s)) IsSpace"
      using TrimLeft_step [of "pre @ s"] False sp by (simp add: startsWithSpace_def runeWidth_def dec)
    also have "drop ?k (pre @ s) = drop ?k pre @ s" using kb by simp
    also have "TrimLeftFunc (drop ?k pre @ s) IsSpace = TrimLeftFunc s IsSpace"
      using kb False rest by (intro less.hyps) simp_all
    finally show ?thesis .
  qed
qed

lemma whiteSpace_append: "whiteSpace a \<Longrightarrow> whiteSpace b \<Longrightarrow> whiteSpace (a @ b)"
  by (simp add: whiteSpace_def TrimLeft_spaces)

lemma whiteSpace_rune:
  "startsWithSpace E \<Longrightarrow> runeWidth E = length E \<Longrightarrow> whiteSpace E"
  by (cases "E = []") (simp_all add: whiteSpace_step)

lemma whiteSpace_last_rune:
  "whiteSpace post \<Longrightarrow> post \<noteq> [] \<Longrightarrow>
     \<exists>p E. post = p @ E \<and> whiteSpace p \<and> startsWithSpace E \<and> runeWidth E = length E"
proof (induction "length post" arbitrary: post rule: less_induct)
  case less
  let ?k = "runeWidth post"
  let ?E = "take ?k post"
  from less.prems have sp: "startsWithSpace post" and rest: "whiteSpace (drop ?k post)"
    by (simp_all add: whiteSpace_step)
  have kb: "1 \<le> ?k" "?k \<le> length post" using runeWidth_bounds [OF less.prems(2)] by simp_all
  have dec: "DecodeRuneInString ?E = DecodeRuneInString post" using sp by (rule space_take)
  then have E: "startsWithSpace ?E" "runeWidth ?E = length ?E"
    using sp kb by (simp_all add: startsWithSpace_def runeWidth_def)
  show ?case
  proof (cases "drop ?k post = []")
    case True
    then have "post = [] @ ?E" by simp
    with E show ?thesis using whiteSpace_Nil by blast
  next
    case False
    have "length (drop ?k post) < length post" using kb less.prems(2) by simp
    from less.hyps [OF this rest False] obtain p E where
      pE: "drop ?k post = p @ E" "whiteSpace p" "startsWithSpace E" "runeWidth E = length E"
      by blast
    have "post = ?E @ drop ?k post" by simp
    then have "post = (?E @ p) @ E" using pE(1) by simp
    moreover have "whiteSpace (?E @ p)" using whiteSpace_rune [OF E] pE(2) by (rule whiteSpace_append)
    ultimately show ?thesis using pE(3,4) by blast
  qed
qed

lemma DecodeLast_Nil [simp]: "DecodeLastRuneInString [] = (RuneError, 0)"
  by (simp add: DecodeLastRuneInString_def)

lemma endsWithSpace_Nil [simp]: "\<not> endsWithSpace []"
  by (simp add: endsWithSpace_def)

lemma endsWithSpace_ascii:
  "s \<noteq> [] \<Longrightarrow> byte (last s) < 0x80 \<Longrightarrow> endsWithSpace s \<longleftrightarrow> asciiSpace (last s)"
  by (simp add: endsWithSpace_def DecodeLast_ascii IsSpace_ascii)

lemma TrimRight_step:
  "s \<noteq> [] \<Longrightarrow> TrimRightFunc s IsSpace =
     (if endsWithSpace s
      then TrimRightFunc (take (length s - snd (DecodeLastRuneInString s)) s) IsSpace else s)"
  by (simp add: TrimRightFunc_eval endsWithSpace_def split: prod.splits)

lemma TrimRight_id: "\<not> endsWithSpace s \<Longrightarrow> TrimRightFunc s IsSpace = s"
  by (cases "s = []") (simp_all add: TrimRight_step)

lemma complete_rune_cases:
  assumes "startsWithSpace E" "runeWidth E = length E"
  obtains c0 where "E = [c0]" "byte c0 < 0x80"
    | c0 c1 where "E = [c0, c1]" "RuneStart c0" "\<not> RuneStart c1" "\<not> byte c0 < 0x80" "\<not> byte c1 < 0x80"
    | c0 c1 c2 where "E = [c0, c1, c2]" "RuneStart c0" "\<not> RuneStart c1" "\<not> RuneStart c2"
        "\<not> byte c0 < 0x80" "\<not> byte c1 < 0x80" "\<not> byte c2 < 0x80"
    | c0 c1 c2 c3 where "E = [c0, c1, c2, c3]" "RuneStart c0" "\<not> RuneStart c1" "\<not> RuneStart c2"
        "\<not> RuneStart c3" "\<not> byte c0 < 0x80" "\<not> byte c1 < 0x80" "\<not> byte c2 < 0x80" "\<not> byte c3 < 0x80"
proof (cases E rule: list4_cases)
  case 1
  with assms(1) show ?thesis by simp
next
  case (2 c0)
  with assms(1) have "byte c0 < 0x80"
    by (auto simp: startsWithSpace_def Decode_Cons split: if_splits)
  with 2 show ?thesis using that(1) by blast
next
  case (3 c0 c1)
  with assms(2) have w: "1 < runeWidth E" by simp
  from rune_byte0 [OF w] rune_byte1 [OF w] 3 show ?thesis
    using that(2) by (auto simp: RuneStart_def)
next
  case (4 c0 c1 c2)
  with assms(2) have w: "1 < runeWidth E" "2 < runeWidth E" by simp_all
  from rune_byte0 [OF w(1)] rune_byte1 [OF w(1)] rune_byte2 [OF w(2)] 4 show ?thesis
    using that(3) by (auto simp: RuneStart_def)
next
  case (5 c0 c1 c2 c3 t)
  with assms(2) runeWidth_le4 [of E] have t: "t = []" by simp
  with 5 assms(2) have w: "1 < runeWidth E" "2 < runeWidth E" "3 < runeWidth E" by simp_all
  from rune_byte0 [OF w(1)] rune_byte1 [OF w(1)] rune_byte2 [OF w(2)] rune_byte3 [OF w(3)] 5 t
  show ?thesis using that(4) by (auto simp: RuneStart_def)
qed

lemma DecodeLast_complete:
  assumes "startsWithSpace E" "runeWidth E = length E"
  shows "DecodeLastRuneInString (x @ E) = DecodeRuneInString E"
proof -
  from assms(2) obtain r where dr: "DecodeRuneInString E = (r, length E)"
    by (cases "DecodeRuneInString E") (simp add: runeWidth_def)
  from assms show ?thesis
  proof (cases E rule: complete_rune_cases)
    case (1 c0)
    then show ?thesis by (simp add: DecodeLast_ascii Decode_ascii)
  next
    case (2 c0 c1)
    then show ?thesis using dr
      by (simp add: DecodeLastRuneInString_def Let_def nth_append)
  next
    case (3 c0 c1 c2)
    then show ?thesis using dr
      by (simp add: DecodeLastRuneInString_def Let_def nth_append)
  next
    case (4 c0 c1 c2 c3)
    then show ?thesis using dr
      by (simp add: DecodeLastRuneInString_def Let_def nth_append)
  qed
qed

lemma endsWithSpace_I:
  "startsWithSpace E \<Longrightarrow> runeWidth E = length E \<Longrightarrow> endsWithSpace (x @ E)"
  by (simp add: endsWithSpace_def DecodeLast_complete startsWithSpace_def [symmetric])

lemma endsWithSpace_D:
  assumes "endsWithSpace s"
  shows "\<exists>p E. s = p @ E \<and> startsWithSpace E \<and> runeWidth E = length E"
proof -
  have ne: "s \<noteq> []" using assms by auto
  show ?thesis
  proof (cases "byte (last s) < 0x80")
    case True
    then have "startsWithSpace [last s]" "runeWidth [last s] = length [last s]"
      using assms ne
      by (simp_all add: endsWithSpace_ascii startsWithSpace_ascii runeWidth_ascii)
    moreover have "s = butlast s @ [last s]" using ne by simp
    ultimately show ?thesis by blast
  next
    case False
    from DecodeLast_start [OF ne False] obtain start where
      st: "start < length s" and d: "DecodeLastRuneInString s =
           (if start + snd (DecodeRuneInString (drop start s)) \<noteq> length s then (RuneError, 1)
            else DecodeRuneInString (drop start s))" by blast
    from assms d have eq: "start + snd (DecodeRuneInString (drop start s)) = length s"
      and sp: "IsSpace (fst (DecodeRuneInString (drop start s)))"
      by (auto simp: endsWithSpace_def split: if_splits)
    have "s = take start s @ drop start s" by simp
    moreover have "startsWithSpace (drop start s)" using sp by (simp add: startsWithSpace_def)
    moreover have "runeWidth (drop start s) = length (drop start s)"
      using eq st by (simp add: runeWidth_def)
    ultimately show ?thesis by blast
  qed
qed

lemma TrimRight_spaces:
  "whiteSpace post \<Longrightarrow> TrimRightFunc (s @ post) IsSpace = TrimRightFunc s IsSpace"
proof (induction "length post" arbitrary: post rule: less_induct)
  case less
  show ?case
  proof (cases "post = []")
    case True
    then show ?thesis by simp
  next
    case False
    from whiteSpace_last_rune [OF less.prems False] obtain p E where
      pE: "post = p @ E" "whiteSpace p" "startsWithSpace E" "runeWidth E = length E" by blast
    have Ene: "E \<noteq> []" using pE(3) by auto
    have d: "DecodeLastRuneInString ((s @ p) @ E) = DecodeRuneInString E"
      using pE(3,4) by (rule DecodeLast_complete)
    have e: "endsWithSpace ((s @ p) @ E)" using pE(3,4) by (rule endsWithSpace_I)
    have w: "snd (DecodeLastRuneInString ((s @ p) @ E)) = length E"
      using d pE(4) by (simp add: runeWidth_def)
    have "TrimRightFunc ((s @ p) @ E) IsSpace = TrimRightFunc (s @ p) IsSpace"
      using TrimRight_step [of "(s @ p) @ E"] e w Ene by simp
    also have "\<dots> = TrimRightFunc s IsSpace"
      using pE(1,2) Ene by (intro less.hyps) simp_all
    finally show ?thesis using pE(1) by simp
  qed
qed

lemma TrimSpace_surround:
  assumes "whiteSpace pre" "whiteSpace post"
    and "\<not> startsWithSpace s" "\<not> endsWithSpace s"
  shows "TrimSpace (pre @ s @ post) = s"
proof (cases "s = []")
  case True
  have "whiteSpace (pre @ post)" using assms(1,2) by (rule whiteSpace_append)
  then show ?thesis using True by (simp add: TrimSpace_def TrimFunc_def whiteSpace_def)
next
  case False
  have ns: "\<not> startsWithSpace (s @ post)"
  proof (cases post)
    case Nil
    then show ?thesis using assms(3) by simp
  next
    case (Cons c r)
    with assms(2) have "startsWithSpace (c # r)" by (simp add: whiteSpace_step)
    then have "RuneStart c" by (rule startsWithSpace_RuneStart)
    then show ?thesis
      using Decode_start_context [OF False, of c r] assms(3) Cons by (simp add: startsWithSpace_def)
  qed
  have "TrimLeftFunc (pre @ s @ post) IsSpace = s @ post"
    using TrimLeft_spaces [OF assms(1), of "s @ post"] TrimLeft_id [OF ns] by simp
  moreover have "TrimRightFunc (s @ post) IsSpace = s"
    using TrimRight_spaces [OF assms(2), of s] TrimRight_id [OF assms(4)] by simp
  ultimately show ?thesis by (simp add: TrimSpace_def TrimFunc_def)
qed


lemma complete_rune_bytes:
  assumes "startsWithSpace E" "runeWidth E = length E" "b \<in> set E" "byte b < 0x80"
  shows "E = [b]"
  using assms(1,2)
  by (cases E rule: complete_rune_cases) (use assms(3,4) in auto)

lemma endsWithSpace_ascii_context:
  assumes "byte c < 0x80" "t \<noteq> []" "endsWithSpace (x @ c # t)"
  shows "endsWithSpace t"
proof -
  from endsWithSpace_D [OF assms(3)] obtain p E where
    pE: "x @ c # t = p @ E" "startsWithSpace E" "runeWidth E = length E" by blast
  from pE(1) have "(x @ [c]) @ t = p @ E" by simp
  then obtain us where "(x @ [c] = p @ us \<and> us @ t = E) \<or> ((x @ [c]) @ us = p \<and> t = us @ E)"
    unfolding append_eq_append_conv2 by blast
  then show ?thesis
  proof
    assume a: "x @ [c] = p @ us \<and> us @ t = E"
    show ?thesis
    proof (cases "us = []")
      case True
      with a have "t = [] @ E" by simp
      then show ?thesis using endsWithSpace_I [OF pE(2,3), of "[]"] by simp
    next
      case False
      with a have "last us = c" by (metis last_appendR last_snoc)
      with False have "c \<in> set us" using last_in_set by blast
      with a have "c \<in> set E" by auto
      from complete_rune_bytes [OF pE(2,3) this assms(1)] a have "length (us @ t) = 1" by simp
      then show ?thesis using False assms(2) by (cases us; cases t) simp_all
    qed
  next
    assume "(x @ [c]) @ us = p \<and> t = us @ E"
    then show ?thesis using endsWithSpace_I [OF pE(2,3), of us] by simp
  qed
qed






text \<open>The rewrite rules that compute the scans on a literal string: \<open>space_eval\<close> where
  all its bytes are below \<open>80\<close>, with \<open>rune_eval\<close> where they are not.\<close>

lemmas space_eval =
  FieldsSeq_def fieldsFrom.simps(2) TrimSpace_def TrimFunc_def TrimLeftFunc.simps(2) TrimRightFunc_eval
  DecodeLast_ascii Decode_ascii startsWithSpace_ascii endsWithSpace_def whiteSpace_def byte_def
  asciiSpace_def IsSpace_def Let_def

lemmas rune_eval =
  DecodeRuneInString_def DecodeLastRuneInString_def RuneStart_def runeSize_def acceptLo_def
  acceptHi_def RuneError_def startsWithSpace_def


subsection \<open>Prefixes, suffixes, Index and Split\<close>

text \<open>How the string functions act on a text that is given as a concatenation.\<close>

lemma HasPrefix_append [simp]: "HasPrefix (p @ s) p"
  by (simp add: HasPrefix_def)

lemma HasSuffix_append [simp]: "HasSuffix (s @ p) p"
  by (simp add: HasSuffix_def)

lemma TrimSuffix_append [simp]: "TrimSuffix (s @ p) p = s"
  by (simp add: TrimSuffix_def)


lemma HasSuffix_iff: "HasSuffix s suf \<longleftrightarrow> (\<exists>p. s = p @ suf)"
proof
  assume "HasSuffix s suf"
  then have "s = take (length s - length suf) s @ suf"
    by (metis HasSuffix_def append_take_drop_id)
  then show "\<exists>p. s = p @ suf" ..
next
  assume "\<exists>p. s = p @ suf"
  then show "HasSuffix s suf" by (auto simp: HasSuffix_def)
qed

lemma HasSuffix_single: "HasSuffix s [c] \<longleftrightarrow> s \<noteq> [] \<and> last s = c"
  by (auto simp: HasSuffix_iff) (metis append_butlast_last_id)

lemma TrimSuffix_none: "\<not> HasSuffix s suf \<Longrightarrow> TrimSuffix s suf = s"
  by (simp add: TrimSuffix_def)

lemma Index_char: "c \<notin> set w \<Longrightarrow> Index (w @ c # s) [c] = int (length w)"
  by (induction w) (auto simp: HasPrefix_def Let_def)

lemma Index_char_none: "c \<notin> set s \<Longrightarrow> Index s [c] = - 1"
  by (induction s) (auto simp: HasPrefix_def Let_def)

lemma Index_drop:
  assumes "c \<notin> set w"
  shows "Index (w @ c # s) [c] \<noteq> - 1 \<and> drop (nat (Index (w @ c # s) [c] + 1)) (w @ c # s) = s"
proof -
  have "nat (int (length w) + 1) = Suc (length w)" by simp
  then show ?thesis using Index_char [OF assms, of s] by simp
qed

lemma splitFrom_word: "sep \<notin> set w \<Longrightarrow> splitFrom sep cur (w @ s) = splitFrom sep (cur @ w) s"
  by (induction w arbitrary: cur) auto

lemma Split_two: "sep \<notin> set a \<Longrightarrow> sep \<notin> set b \<Longrightarrow> Split (a @ sep # b) sep = [a, b]"
  using splitFrom_word [of sep a "[]" "sep # b"] splitFrom_word [of sep b "[]" "[]"]
  by (simp add: Split_def)

lemma splitFrom_unfold:
  "splitFrom sep cur s =
     (cur @ takeWhile (\<lambda>c. c \<noteq> sep) s)
       # (case dropWhile (\<lambda>c. c \<noteq> sep) s of [] \<Rightarrow> [] | x # r \<Rightarrow> splitFrom sep [] r)"
  by (induction s arbitrary: cur) auto

lemma Split_two_D:
  assumes "Split p sep = [a, b]"
  shows "p = a @ sep # b \<and> sep \<notin> set a \<and> sep \<notin> set b"
proof -
  let ?P = "\<lambda>c. c \<noteq> sep"
  from assms have eq: "(takeWhile ?P p) # (case dropWhile ?P p of [] \<Rightarrow> [] | x # r \<Rightarrow> splitFrom sep [] r) = [a, b]"
    using splitFrom_unfold [of sep "[]" p] by (simp add: Split_def)
  then have a: "a = takeWhile ?P p" by simp
  from eq obtain x r where dr: "dropWhile ?P p = x # r" and r: "splitFrom sep [] r = [b]"
    by (cases "dropWhile ?P p") auto
  from dr have x: "x = sep" by (metis (full_types) hd_dropWhile list.distinct(1) list.sel(1))
  from r have "(takeWhile ?P r) # (case dropWhile ?P r of [] \<Rightarrow> [] | x # r' \<Rightarrow> splitFrom sep [] r') = [b]"
    using splitFrom_unfold [of sep "[]" r] by simp
  then have b: "b = takeWhile ?P r" and dn: "dropWhile ?P r = []"
    by (auto split: list.splits) (metis list.distinct(1) splitFrom_unfold)
  from dn have rb: "takeWhile ?P r = r" by (metis append_Nil2 takeWhile_dropWhile_id)
  have "p = takeWhile ?P p @ dropWhile ?P p" by simp
  then have "p = a @ sep # b" using a dr x b rb by simp
  moreover have "sep \<notin> set a" using a by (metis (mono_tags, lifting) set_takeWhileD)
  moreover have "sep \<notin> set b" using b by (metis (mono_tags, lifting) set_takeWhileD)
  ultimately show ?thesis by blast
qed


subsection \<open>ParseGitHubRepoFromUrl\<close>

text \<open>The two branches of the parser on a trimmed URL of the right shape, and its four ways
  to fail.\<close>

lemma twoSegments_I:
  assumes "a \<noteq> []" "b \<noteq> []" "CHR ''/'' \<notin> set a" "CHR ''/'' \<notin> set b"
  shows "twoSegments (a @ CHR ''/'' # b)"
proof -
  have "filter (\<lambda>c. c = CHR ''/'') a = []" "filter (\<lambda>c. c = CHR ''/'') b = []"
    using assms(3,4) by (auto simp: filter_empty_conv)
  moreover have "hd (a @ CHR ''/'' # b) \<noteq> CHR ''/''" using assms(1,3) by (cases a) auto
  moreover have "last (a @ CHR ''/'' # b) \<noteq> CHR ''/''" using assms(2,4) by (cases b rule: rev_cases) auto
  ultimately show ?thesis by (simp add: twoSegments_def)
qed

lemma ownerRepo_error:
  assumes "\<not> twoSegments p"
  shows "ownerRepo e (Split p CHR ''/'') = ([], [], Some e)"
proof -
  have "\<not> (p0 \<noteq> [] \<and> p1 \<noteq> [])" if "Split p CHR ''/'' = [p0, p1]" for p0 p1
    using Split_two_D [OF that] twoSegments_I [of p0 p1] assms by auto
  then show ?thesis
    by (cases "(e, Split p CHR ''/'')" rule: ownerRepo.cases) auto
qed

lemma ownerRepo_empty_on_error: "ownerRepo e parts = (a, b, Some e') \<Longrightarrow> a = [] \<and> b = []"
  by (induction e parts rule: ownerRepo.induct) (auto split: if_splits)

lemma ownerRepo_ok:
  "a \<noteq> [] \<Longrightarrow> b \<noteq> [] \<Longrightarrow> CHR ''/'' \<notin> set a \<Longrightarrow> CHR ''/'' \<notin> set b \<Longrightarrow>
     ownerRepo e (Split (a @ CHR ''/'' # b) CHR ''/'') = (a, b, None)"
  by (simp add: Split_two)

lemma not_git_suffix:
  assumes "\<not> HasSuffix R ''.git''"
  shows "\<not> HasSuffix (x @ CHR ''/'' # R) ''.git''"
proof
  assume "HasSuffix (x @ CHR ''/'' # R) ''.git''"
  then obtain p where p: "x @ CHR ''/'' # R = p @ ''.git''" by (auto simp: HasSuffix_iff)
  then obtain us where "(x = p @ us \<and> us @ CHR ''/'' # R = ''.git'') \<or> (x @ us = p \<and> CHR ''/'' # R = us @ ''.git'')"
    by (auto simp: append_eq_append_conv2)
  then show False
  proof
    assume "x = p @ us \<and> us @ CHR ''/'' # R = ''.git''"
    then have "CHR ''/'' \<in> set ''.git''" by (metis in_set_conv_decomp)
    then show False by simp
  next
    assume a: "x @ us = p \<and> CHR ''/'' # R = us @ ''.git''"
    show False
    proof (cases us)
      case Nil
      with a show False by simp
    next
      case (Cons c us')
      with a have "R = us' @ ''.git''" by simp
      with assms show False by (simp add: HasSuffix_iff)
    qed
  qed
qed

lemma url_not_endsWithSpace:
  assumes "name \<noteq> []" "g = [] \<longrightarrow> \<not> endsWithSpace name" "g \<in> {[], ''.git''}"
  shows "\<not> endsWithSpace (x @ CHR ''/'' # name @ g)"
proof (cases "g = []")
  case True
  then show ?thesis
    using endsWithSpace_ascii_context [of "CHR ''/''" name x] assms(1,2) by (auto simp: byte_def)
next
  case False
  with assms(3) have "g = ''.git''" by simp
  then show ?thesis by (simp add: endsWithSpace_ascii byte_def asciiSpace_def)
qed

lemma parse_ssh:
  assumes "TrimSuffix (TrimSpace url) ''/'' = ''git@'' @ H @ '':'' @ path" and "CHR '':'' \<notin> set H"
  shows "ParseGitHubRepoFromUrl url =
           ownerRepo SSHExpectedOwnerRepo (Split (TrimPrefix (TrimSuffix path ''.git'') ''/'') CHR ''/'')"
proof -
  define u where "u = ''git@'' @ H @ '':'' @ path"
  have n: "TrimSuffix (TrimSpace url) ''/'' = u" using assms(1) by (simp add: u_def)
  have hp: "HasPrefix u ''git@''" unfolding u_def by (rule HasPrefix_append)
  have "CHR '':'' \<notin> set (''git@'' @ H)" using assms(2) by simp
  from Index_drop [OF this, of path]
  have idx: "Index u '':'' \<noteq> - 1" and dr: "drop (nat (Index u '':'' + 1)) u = path"
    by (simp_all add: u_def)
  show ?thesis
    by (simp add: ParseGitHubRepoFromUrl_def Let_def n hp idx dr)
qed

lemma parse_http:
  assumes "TrimSuffix (TrimSpace url) ''/'' = scheme @ H @ ''/'' @ path"
    and "scheme = ''https://'' \<or> scheme = ''http://''" and "CHR ''/'' \<notin> set H"
  shows "ParseGitHubRepoFromUrl url =
           ownerRepo HTTPSExpectedOwnerRepo (Split (TrimSuffix (TrimSuffix path ''.git'') ''/'') CHR ''/'')"
proof -
  define u where "u = scheme @ H @ ''/'' @ path"
  define rest where "rest = H @ ''/'' @ path"
  have n: "TrimSuffix (TrimSpace url) ''/'' = u" using assms(1) by (simp add: u_def)
  have ng: "\<not> HasPrefix u ''git@''" using assms(2) by (auto simp: u_def HasPrefix_def)
  have tp: "(if HasPrefix u ''https://'' then TrimPrefix u ''https://'' else TrimPrefix u ''http://'') = rest"
    using assms(2) by (auto simp: u_def rest_def HasPrefix_def TrimPrefix_def)
  have hp: "HasPrefix u ''https://'' \<or> HasPrefix u ''http://''"
    using assms(2) by (auto simp: u_def HasPrefix_def)
  from Index_drop [OF assms(3), of path]
  have idx: "Index rest ''/'' \<noteq> - 1" and dr: "drop (nat (Index rest ''/'' + 1)) rest = path"
    by (simp_all add: rest_def)
  show ?thesis
    using hp by (simp add: ParseGitHubRepoFromUrl_def Let_def n ng tp idx dr)
qed

lemma errorClassOf_simps [simp]:
  "errorClassOf (a, b, Some e) = Some (errorClass e)" "errorClassOf (a, b, None) = None"
  by (simp_all add: errorClassOf_def)

lemma parse_unsupported:
  assumes "\<not> HasPrefix (TrimSuffix (TrimSpace url) ''/'') ''git@''"
    and "\<not> HasPrefix (TrimSuffix (TrimSpace url) ''/'') ''https://''"
    and "\<not> HasPrefix (TrimSuffix (TrimSpace url) ''/'') ''http://''"
  shows "ParseGitHubRepoFromUrl url = ([], [], Some UnsupportedURLFormat)"
  using assms by (simp add: ParseGitHubRepoFromUrl_def Let_def)

lemma parse_missing_colon:
  assumes "TrimSuffix (TrimSpace url) ''/'' = ''git@'' @ rest" and "CHR '':'' \<notin> set rest"
  shows "ParseGitHubRepoFromUrl url = ([], [], Some SSHMissingColonSeparator)"
proof -
  define u where "u = ''git@'' @ rest"
  have n: "TrimSuffix (TrimSpace url) ''/'' = u" using assms(1) by (simp add: u_def)
  have hp: "HasPrefix u ''git@''" unfolding u_def by (rule HasPrefix_append)
  have "CHR '':'' \<notin> set u" using assms(2) by (simp add: u_def)
  then have idx: "Index u '':'' = - 1" by (rule Index_char_none)
  show ?thesis by (simp add: ParseGitHubRepoFromUrl_def Let_def n hp idx)
qed

lemma parse_missing_path:
  assumes "TrimSuffix (TrimSpace url) ''/'' = scheme @ H"
    and "scheme = ''https://'' \<or> scheme = ''http://''" and "CHR ''/'' \<notin> set H"
  shows "ParseGitHubRepoFromUrl url = ([], [], Some HTTPSMissingPath)"
proof -
  define u where "u = scheme @ H"
  have n: "TrimSuffix (TrimSpace url) ''/'' = u" using assms(1) by (simp add: u_def)
  have ng: "\<not> HasPrefix u ''git@''" using assms(2) by (auto simp: u_def HasPrefix_def)
  have tp: "(if HasPrefix u ''https://'' then TrimPrefix u ''https://'' else TrimPrefix u ''http://'') = H"
    using assms(2) by (auto simp: u_def HasPrefix_def TrimPrefix_def)
  have hp: "HasPrefix u ''https://'' \<or> HasPrefix u ''http://''"
    using assms(2) by (auto simp: u_def HasPrefix_def)
  have idx: "Index H ''/'' = - 1" using assms(3) by (rule Index_char_none)
  show ?thesis
    using hp by (simp add: ParseGitHubRepoFromUrl_def Let_def n ng tp idx)
qed

lemma parse_error_empty:
  assumes "ParseGitHubRepoFromUrl url = (a, b, Some e)"
  shows "a = [] \<and> b = []"
  using assms ownerRepo_empty_on_error
  by (auto simp: ParseGitHubRepoFromUrl_def Let_def split: if_splits)

lemmas parse_eval =
  ParseGitHubRepoFromUrl_def TrimSuffix_def HasSuffix_def HasPrefix_def TrimPrefix_def Split_def
  space_eval

lemma parse_examples:
  "ParseGitHubRepoFromUrl [] = ([], [], Some UnsupportedURLFormat)"
  "ParseGitHubRepoFromUrl ''ftp://github.com/owner/repo'' = ([], [], Some UnsupportedURLFormat)"
  "ParseGitHubRepoFromUrl ''git@host/o/r'' = ([], [], Some SSHMissingColonSeparator)"
  "ParseGitHubRepoFromUrl ''https://host'' = ([], [], Some HTTPSMissingPath)"
  "ParseGitHubRepoFromUrl ''https://host/only'' = ([], [], Some HTTPSExpectedOwnerRepo)"
  "ParseGitHubRepoFromUrl ''https://host/a/b/c'' = ([], [], Some HTTPSExpectedOwnerRepo)"
  "ParseGitHubRepoFromUrl ''git@host:/r'' = ([], [], Some SSHExpectedOwnerRepo)"
  "ParseGitHubRepoFromUrl ''https://host/o/'' = ([], [], Some HTTPSExpectedOwnerRepo)"
  by (simp_all add: parse_eval)


subsection \<open>Repo tokens and the author filter\<close>

text \<open>The loops over the tokens, as searches and filters of the token list.\<close>

lemma repoFilterTokenValue_find:
  "repoFilterTokenValue ts =
     (case find isRepoToken ts of None \<Rightarrow> ([], False)
      | Some token \<Rightarrow> (TrimPrefix token ''repo:'', True))"
  by (induction ts) (simp_all add: isRepoToken_def)

lemma anyRepoToken_iff: "anyRepoToken ts \<longleftrightarrow> (\<exists>token \<in> set ts. isRepoToken token)"
  by (induction ts) (auto simp: isRepoToken_def)

lemma repoName_not_Nil [simp]: "repoName owner name \<noteq> []"
  by (simp add: repoName_def)

lemma getRepoFilterTokenValue_find:
  "getRepoFilterTokenValue s =
     (case find isRepoToken (FieldsSeq s) of None \<Rightarrow> ([], False)
      | Some token \<Rightarrow> (TrimPrefix token ''repo:'', True))"
  by (simp add: getRepoFilterTokenValue_def repoFilterTokenValue_find)

lemma TrimPrefix_repo_bare [simp]: "TrimPrefix ''repo:'' ''repo:'' = []"
  by (simp add: TrimPrefix_def HasPrefix_def)



lemma author_not_repo [simp]: "\<not> isRepoToken ''author:@me''"
  by (simp add: isRepoToken_def HasPrefix_def)

lemma filter_repo_author:
  "filter isRepoToken (filter (\<lambda>token. token \<noteq> ''author:@me'') ts) = filter isRepoToken ts"
  by (induction ts) auto

lemma manualRepoFilter_author [simp]:
  "manualRepoFilter ctx (m\<lparr>IsAuthorFilterRemoved := b\<rparr>) ts = manualRepoFilter ctx m ts"
  by (induction ts) (simp_all add: Let_def)



lemma applyAuthorFilter_False [simp]:
  "applyAuthorFilter (m\<lparr>IsAuthorFilterRemoved := False\<rparr>) s = s"
  by (simp add: applyAuthorFilter_def)

lemma applyAuthorFilter_True:
  "applyAuthorFilter (m\<lparr>IsAuthorFilterRemoved := True\<rparr>) s =
     Join (filter (\<lambda>token. token \<noteq> ''author:@me'') (FieldsSeq s)) '' ''"
  by (simp add: applyAuthorFilter_def)








lemma tokens_remaining [simp]: "list_all isToken (remainingTokens m s)"
  by (simp add: remainingTokens_def)


subsection \<open>The paths of GetSearchValue\<close>

text \<open>The composer has three ways out: the custom filter, the text as typed, and the scope
  that the filter target selects.\<close>

lemma GetSearchValue_author:
  "GetSearchValue ctx m =
     applyAuthorFilter m (GetSearchValue ctx (m\<lparr>IsAuthorFilterRemoved := False\<rparr>))"
  by (simp add: GetSearchValue_def applyRepoFilter_def hasManualRepoFilter_def
      HasRepoNameInConfiguredFilter_def enrichSearchWithTemplateVars_def Let_def
      split: prod.splits FilterTarget.splits)






subsection \<open>The synchronizer and the selected identity\<close>

text \<open>What the synchronizer records, by the first repo token of the search value, and which
  identity the recorded filter target selects.\<close>

lemma Sync_no_token:
  assumes "find isRepoToken (FieldsSeq (SearchValue m)) = None"
  shows "SyncRepoFilterStateFromSearchValue ctx m =
           m\<lparr>CustomRepoFilter := [], FilterTarget := FilterTargetNone,
             IsFilteredByCurrentRemote := False\<rparr>"
  using assms by (simp add: SyncRepoFilterStateFromSearchValue_def getRepoFilterTokenValue_find)






















subsection \<open>Evaluation at the concrete inputs\<close>

text \<open>The rewrite rules that compute the functions on literal strings, and the remotes of
  the two concrete contexts.\<close>

lemmas string_eval =
  TrimSuffix_def HasSuffix_def HasPrefix_def TrimPrefix_def Split_def space_eval

lemma ctx_eval:
  "GetOriginRepo ctxOrigin = (''acme'', ''widgets'', True)"
  "GetUpstreamRepo ctxOrigin = ([], [], False)"
  "GetOriginRepo ctxFork = (''acme'', ''widgets'', True)"
  "GetUpstreamRepo ctxFork = (''upstream'', ''widgets'', True)"
  "ExpandTemplate ctxOrigin s = s"
  "ExpandTemplate ctxFork s = s"
  by (simp_all add: GetOriginRepo_def GetUpstreamRepo_def resolveRepo_def ctxOrigin_def ctxFork_def
      ParseGitHubRepoFromUrl_def string_eval)

lemmas section_eval =
  GetSearchValue_def enrichSearchWithTemplateVars_def applyRepoFilter_def applyAuthorFilter_def
  StripRepoFilterTokens_def hasManualRepoFilter_def HasRepoNameInConfiguredFilter_def
  getRepoFilterTokenValue_def SyncRepoFilterStateFromSearchValue_def ToggleFilterTarget_def
  HasUpstreamRemote_def repoName_def modelOrigin_def ctx_eval string_eval

text \<open>Some inputs with a no-break space (U+00A0, the bytes \<open>C2 A0\<close>) or an ideographic
  space (U+3000, the bytes \<open>E3 80 80\<close>) where a space could stand: the fields are split
  there, the URL is trimmed there, and the functions built on them see the tokens.\<close>

lemma no_break_space_examples:
  "FieldsSeq (''is:open'' @ [CHR 0xC2, CHR 0xA0] @ ''repo:c/d'') = [''is:open'', ''repo:c/d'']"
  "FieldsSeq (''a'' @ [CHR 0xE3, CHR 0x80, CHR 0x80] @ ''b'') = [''a'', ''b'']"
  "\<not> noSpace (''a'' @ [CHR 0xC2, CHR 0xA0] @ ''b'')"
  "TrimSpace ([CHR 0xC2, CHR 0xA0] @ ''https://host/o/r'') = ''https://host/o/r''"
  "ParseGitHubRepoFromUrl (''git@host:owner/repo'' @ [CHR 0xC2, CHR 0xA0]) = (''owner'', ''repo'', None)"
  "ParseGitHubRepoFromUrl ([CHR 0xC2, CHR 0xA0] @ ''https://host/o/r'') = (''o'', ''r'', None)"
  "find isRepoToken (FieldsSeq (''is:open'' @ [CHR 0xC2, CHR 0xA0] @ ''repo:a/b repo:'')) = Some ''repo:a/b''"
  "FilterTarget (SyncRepoFilterStateFromSearchValue ctxOrigin
     (modelOrigin\<lparr>SearchValue := ''is:open'' @ [CHR 0xC2, CHR 0xA0] @ ''repo:acme/widgets'',
        FilterTarget := FilterTargetNone\<rparr>)) = FilterTargetOrigin"
  "ToggleFilterTarget ctxFork (modelOrigin\<lparr>ConfigFilters := ''is:open'' @ [CHR 0xC2, CHR 0xA0] @ ''repo:x/y''\<rparr>)
     = modelOrigin\<lparr>ConfigFilters := ''is:open'' @ [CHR 0xC2, CHR 0xA0] @ ''repo:x/y''\<rparr>"
  "GetSearchValue ctxOrigin
     (modelOrigin\<lparr>ConfigFilters := ''repo:x/y'',
        SearchValue := ''repo:x/y'' @ [CHR 0xC2, CHR 0xA0] @ ''author:@me'',
        IsAuthorFilterRemoved := True\<rparr>) = ''repo:x/y''"
  "GetSearchValue ctxOrigin
     (modelOrigin\<lparr>SearchValue := ''is:open'' @ [CHR 0xC2, CHR 0xA0] @ ''author:@me'',
        IsAuthorFilterRemoved := True\<rparr>) = ''repo:acme/widgets is:open''"
  "GetSearchValue ctxOrigin
     (modelOrigin\<lparr>SearchValue := ''is:open'' @ [CHR 0xC2, CHR 0xA0] @ ''repo:c/d''\<rparr>)
     = ''is:open'' @ [CHR 0xC2, CHR 0xA0] @ ''repo:c/d''"
  by (simp_all add: ParseGitHubRepoFromUrl_def isRepoToken_def section_eval rune_eval)

subsection \<open>The conditions of the round trip\<close>

text \<open>The synchronizer records as custom repo filter only a value without white space that
  is neither the origin nor the upstream identity.\<close>

lemma Sync_custom_recorded:
  "CustomRepoFilter (SyncRepoFilterStateFromSearchValue ctx m) = []
   \<or> (noSpace (CustomRepoFilter (SyncRepoFilterStateFromSearchValue ctx m))
      \<and> \<not> originMatches ctx (CustomRepoFilter (SyncRepoFilterStateFromSearchValue ctx m))
      \<and> \<not> upstreamMatches ctx (CustomRepoFilter (SyncRepoFilterStateFromSearchValue ctx m)))"
proof (cases "find isRepoToken (FieldsSeq (SearchValue m))")
  case None
  then show ?thesis by (simp add: Sync_no_token)
next
  case (Some token)
  then have "token \<in> set (FieldsSeq (SearchValue m))" by (auto simp: find_Some_iff)
  then have "noSpace token" using FieldsSeq_tokens by (auto simp: isToken_def)
  then have "noSpace (TrimPrefix token ''repo:'')"
    by (simp add: TrimPrefix_def noSpace_drop)
  with Some show ?thesis
    by (auto simp: SyncRepoFilterStateFromSearchValue_def getRepoFilterTokenValue_find
        originMatches_def upstreamMatches_def split: prod.splits)
qed

text \<open>Without these conditions the second composition can differ from the first. A custom
  filter equal to the origin identity, on an empty text: the custom path writes no space
  after a lone \<open>repo:\<close> token, the scope path does. An owner with a space in it: the
  synchronizer reads the \<open>repo:\<close> token up to the space.\<close>

lemma round_trip_custom_equal_to_origin:
  "GetSearchValue ctxOrigin (modelOrigin\<lparr>SearchValue := [], CustomRepoFilter := ''acme/widgets''\<rparr>)
     = ''repo:acme/widgets''
   \<and> GetSearchValue ctxOrigin
       (resynced ctxOrigin (modelOrigin\<lparr>SearchValue := [], CustomRepoFilter := ''acme/widgets''\<rparr>))
     = ''repo:acme/widgets ''"
  by (simp add: resynced_def section_eval)

lemma round_trip_owner_with_space:
  "GetSearchValue \<lparr>OriginUrl = Some ''git@github.com:my org/widgets'', UpstreamUrl = None,
                   ExpandTemplate = id\<rparr> (modelOrigin\<lparr>SearchValue := ''is:open''\<rparr>)
     = ''repo:my org/widgets is:open''
   \<and> GetSearchValue \<lparr>OriginUrl = Some ''git@github.com:my org/widgets'', UpstreamUrl = None,
                     ExpandTemplate = id\<rparr>
       (resynced \<lparr>OriginUrl = Some ''git@github.com:my org/widgets'', UpstreamUrl = None,
                   ExpandTemplate = id\<rparr> (modelOrigin\<lparr>SearchValue := ''is:open''\<rparr>))
     = ''repo:my is:open''"
  by (simp add: resynced_def GetOriginRepo_def GetUpstreamRepo_def resolveRepo_def
      ParseGitHubRepoFromUrl_def section_eval)






section \<open>The claims\<close>

subsection \<open>C1: composing, synchronizing and composing again\<close>





subsection \<open>C2: a repo filter in the configuration\<close>

text \<open>
  C2 (amended). When the configured base filter has a token with the prefix \<open>repo:\<close> and the
  custom repo filter is empty, \<open>GetSearchValue\<close> returns the expanded text as it is, whatever
  \<open>FilterTarget\<close> says; when the author filter is removed it returns the tokens of that text
  other than \<open>author:@me\<close>, joined by single spaces. Either way the \<open>repo:\<close> tokens of the text
  stay as they are. A non-empty custom repo filter is not bypassed: it is looked at first and
  replaces the \<open>repo:\<close> tokens of the text.
\<close>

theorem configured_repo_filter_precedence:
  "\<exists>token \<in> set (FieldsSeq (ConfigFilters m)). HasPrefix token ''repo:'' \<Longrightarrow>
   CustomRepoFilter m = [] \<Longrightarrow>
     GetSearchValue ctx m =
       (if IsAuthorFilterRemoved m
        then Join (filter (\<lambda>token. token \<noteq> ''author:@me'')
                     (FieldsSeq (ExpandTemplate ctx (SearchValue m)))) '' ''
        else ExpandTemplate ctx (SearchValue m))
     \<and> filter isRepoToken (FieldsSeq (GetSearchValue ctx m)) =
         filter isRepoToken (FieldsSeq (ExpandTemplate ctx (SearchValue m)))"
proof -
  assume cfg: "\<exists>token \<in> set (FieldsSeq (ConfigFilters m)). HasPrefix token ''repo:''"
    and custom: "CustomRepoFilter m = []"
  from cfg have "HasRepoNameInConfiguredFilter m"
    by (simp add: HasRepoNameInConfiguredFilter_def anyRepoToken_iff isRepoToken_def)
  with custom have eq: "GetSearchValue ctx m = applyAuthorFilter m (ExpandTemplate ctx (SearchValue m))"
    by (cases "GetOriginRepo ctx") (simp add: GetSearchValue_def enrichSearchWithTemplateVars_def Let_def)
  show ?thesis
    unfolding eq
    by (simp add: applyAuthorFilter_def FieldsSeq_Join_filter filter_repo_author del: filter_filter)
qed

theorem configured_repo_filter_precedence_witness:
  "GetSearchValue ctxFork
     (modelOrigin\<lparr>ConfigFilters := ''repo:x/y is:open'',
        SearchValue := ''is:open  repo:x/y author:@me''\<rparr>) = ''is:open  repo:x/y author:@me''
   \<and> GetSearchValue ctxFork
     (modelOrigin\<lparr>ConfigFilters := ''repo:x/y is:open'',
        SearchValue := ''is:open  repo:x/y author:@me'', IsAuthorFilterRemoved := True\<rparr>)
       = ''is:open repo:x/y''"
proof -
  let ?m = "modelOrigin\<lparr>ConfigFilters := ''repo:x/y is:open'',
        SearchValue := ''is:open  repo:x/y author:@me''\<rparr>"
  have c: "\<exists>token \<in> set (FieldsSeq (ConfigFilters ?m)). HasPrefix token ''repo:''"
    "\<exists>token \<in> set (FieldsSeq (ConfigFilters (?m\<lparr>IsAuthorFilterRemoved := True\<rparr>))).
       HasPrefix token ''repo:''"
    by (simp_all add: string_eval)
  have e: "CustomRepoFilter ?m = []" "CustomRepoFilter (?m\<lparr>IsAuthorFilterRemoved := True\<rparr>) = []"
    by (simp_all add: modelOrigin_def)
  show ?thesis
    using configured_repo_filter_precedence [OF c(1) e(1), of ctxFork]
      configured_repo_filter_precedence [OF c(2) e(2), of ctxFork]
    by (simp add: section_eval)
qed

text \<open>The counterexample: the configuration and the text say \<open>repo:x/y\<close>, and \<open>c/d\<close> was
  chosen in the picker (custom filter \<open>c/d\<close>, filter target none); the composed query has
  \<open>repo:c/d\<close> in place of \<open>repo:x/y\<close>.\<close>

theorem custom_filter_overrides_configured:
  "HasRepoNameInConfiguredFilter
     (modelOrigin\<lparr>ConfigFilters := ''repo:x/y is:open'', SearchValue := ''repo:x/y is:open'',
        FilterTarget := FilterTargetNone, CustomRepoFilter := ''c/d''\<rparr>)
   \<and> ExpandTemplate ctxOrigin ''repo:x/y is:open'' = ''repo:x/y is:open''
   \<and> GetSearchValue ctxOrigin
        (modelOrigin\<lparr>ConfigFilters := ''repo:x/y is:open'', SearchValue := ''repo:x/y is:open'',
           FilterTarget := FilterTargetNone, CustomRepoFilter := ''c/d''\<rparr>) = ''repo:c/d is:open''"
  by (simp add: section_eval)


subsection \<open>C3: the order of the tokens in the composed query\<close>





subsection \<open>C4: the transition table of the synchronizer\<close>

text \<open>
  C4. \<open>SyncRepoFilterStateFromSearchValue\<close> looks at the first token of the search value with
  the prefix \<open>repo:\<close>. With no such token it clears the custom repo filter and sets the filter
  target to none. With such a token, whose part after the prefix is its value: if the value is
  the origin identity written \<open>owner/name\<close> (and the origin resolves), the custom filter is cleared
  and the target is the origin; else if it is the upstream identity, the custom filter is cleared
  and the target is the upstream; otherwise the custom filter is the value and the target is
  none. The author flag and the search value are not touched.
\<close>

theorem Sync_transition_table:
  "(find isRepoToken (FieldsSeq (SearchValue m)) = None \<longrightarrow>
      CustomRepoFilter (SyncRepoFilterStateFromSearchValue ctx m) = []
      \<and> FilterTarget (SyncRepoFilterStateFromSearchValue ctx m) = FilterTargetNone)
   \<and> (find isRepoToken (FieldsSeq (SearchValue m)) = Some token \<longrightarrow>
      (originMatches ctx (TrimPrefix token ''repo:'') \<longrightarrow>
         CustomRepoFilter (SyncRepoFilterStateFromSearchValue ctx m) = []
         \<and> FilterTarget (SyncRepoFilterStateFromSearchValue ctx m) = FilterTargetOrigin)
      \<and> (\<not> originMatches ctx (TrimPrefix token ''repo:'')
           \<and> upstreamMatches ctx (TrimPrefix token ''repo:'') \<longrightarrow>
         CustomRepoFilter (SyncRepoFilterStateFromSearchValue ctx m) = []
         \<and> FilterTarget (SyncRepoFilterStateFromSearchValue ctx m) = FilterTargetUpstream)
      \<and> (\<not> originMatches ctx (TrimPrefix token ''repo:'')
           \<and> \<not> upstreamMatches ctx (TrimPrefix token ''repo:'') \<longrightarrow>
         CustomRepoFilter (SyncRepoFilterStateFromSearchValue ctx m) = TrimPrefix token ''repo:''
         \<and> FilterTarget (SyncRepoFilterStateFromSearchValue ctx m) = FilterTargetNone))
   \<and> IsAuthorFilterRemoved (SyncRepoFilterStateFromSearchValue ctx m) = IsAuthorFilterRemoved m
   \<and> SearchValue (SyncRepoFilterStateFromSearchValue ctx m) = SearchValue m"
  by (auto simp: SyncRepoFilterStateFromSearchValue_def getRepoFilterTokenValue_find
      originMatches_def upstreamMatches_def split: prod.splits)

theorem Sync_transition_table_witness:
  "CustomRepoFilter (SyncRepoFilterStateFromSearchValue ctxFork (modelOrigin\<lparr>CustomRepoFilter := ''c/d''\<rparr>)) = []
   \<and> FilterTarget (SyncRepoFilterStateFromSearchValue ctxFork (modelOrigin\<lparr>CustomRepoFilter := ''c/d''\<rparr>))
       = FilterTargetNone
   \<and> FilterTarget (SyncRepoFilterStateFromSearchValue ctxFork
        (modelOrigin\<lparr>SearchValue := ''is:open repo:acme/widgets'', FilterTarget := FilterTargetNone\<rparr>))
       = FilterTargetOrigin
   \<and> FilterTarget (SyncRepoFilterStateFromSearchValue ctxFork
        (modelOrigin\<lparr>SearchValue := ''repo:upstream/widgets is:open''\<rparr>)) = FilterTargetUpstream
   \<and> CustomRepoFilter (SyncRepoFilterStateFromSearchValue ctxFork
        (modelOrigin\<lparr>SearchValue := ''repo:c/d is:open''\<rparr>)) = ''c/d''
   \<and> FilterTarget (SyncRepoFilterStateFromSearchValue ctxFork
        (modelOrigin\<lparr>SearchValue := ''repo:c/d is:open''\<rparr>)) = FilterTargetNone"
proof -
  let ?a = "modelOrigin\<lparr>CustomRepoFilter := ''c/d''\<rparr>"
  let ?b = "modelOrigin\<lparr>SearchValue := ''is:open repo:acme/widgets'', FilterTarget := FilterTargetNone\<rparr>"
  let ?c = "modelOrigin\<lparr>SearchValue := ''repo:upstream/widgets is:open''\<rparr>"
  let ?d = "modelOrigin\<lparr>SearchValue := ''repo:c/d is:open''\<rparr>"
  have f: "find isRepoToken (FieldsSeq (SearchValue ?a)) = None"
    "find isRepoToken (FieldsSeq (SearchValue ?b)) = Some ''repo:acme/widgets''"
    "find isRepoToken (FieldsSeq (SearchValue ?c)) = Some ''repo:upstream/widgets''"
    "find isRepoToken (FieldsSeq (SearchValue ?d)) = Some ''repo:c/d''"
    by (simp_all add: isRepoToken_def modelOrigin_def string_eval)
  have v: "originMatches ctxFork (TrimPrefix ''repo:acme/widgets'' ''repo:'')"
    "\<not> originMatches ctxFork (TrimPrefix ''repo:upstream/widgets'' ''repo:'')"
    "upstreamMatches ctxFork (TrimPrefix ''repo:upstream/widgets'' ''repo:'')"
    "\<not> originMatches ctxFork (TrimPrefix ''repo:c/d'' ''repo:'')"
    "\<not> upstreamMatches ctxFork (TrimPrefix ''repo:c/d'' ''repo:'')"
    "TrimPrefix ''repo:c/d'' ''repo:'' = ''c/d''"
    by (simp_all add: originMatches_def upstreamMatches_def repoName_def ctx_eval string_eval)
  show ?thesis
    using Sync_transition_table [where m = ?a and ctx = ctxFork]
      Sync_transition_table [where m = ?b and ctx = ctxFork and token = "''repo:acme/widgets''"]
      Sync_transition_table [where m = ?c and ctx = ctxFork and token = "''repo:upstream/widgets''"]
      Sync_transition_table [where m = ?d and ctx = ctxFork and token = "''repo:c/d''"]
      f v
    by simp
qed


subsection \<open>C5: toggling the scope\<close>

text \<open>
  C5. \<open>ToggleFilterTarget\<close> leaves the whole model as it is when the configured base filter has
  a token with the prefix \<open>repo:\<close>. Otherwise, when an upstream remote resolves, it takes the
  filter target from origin to upstream, from upstream to none and from none to origin; when
  no upstream remote resolves, from origin to none and from none to origin. It never changes
  the custom repo filter or the author flag.
\<close>

theorem ToggleFilterTarget_transitions:
  "(HasRepoNameInConfiguredFilter m \<longrightarrow> ToggleFilterTarget ctx m = m)
   \<and> (\<not> HasRepoNameInConfiguredFilter m \<and> HasUpstreamRemote ctx \<longrightarrow>
        (FilterTarget m = FilterTargetOrigin \<longrightarrow>
           FilterTarget (ToggleFilterTarget ctx m) = FilterTargetUpstream)
        \<and> (FilterTarget m = FilterTargetUpstream \<longrightarrow>
           FilterTarget (ToggleFilterTarget ctx m) = FilterTargetNone)
        \<and> (FilterTarget m = FilterTargetNone \<longrightarrow>
           FilterTarget (ToggleFilterTarget ctx m) = FilterTargetOrigin))
   \<and> (\<not> HasRepoNameInConfiguredFilter m \<and> \<not> HasUpstreamRemote ctx \<longrightarrow>
        (FilterTarget m = FilterTargetOrigin \<longrightarrow>
           FilterTarget (ToggleFilterTarget ctx m) = FilterTargetNone)
        \<and> (FilterTarget m = FilterTargetNone \<longrightarrow>
           FilterTarget (ToggleFilterTarget ctx m) = FilterTargetOrigin))
   \<and> CustomRepoFilter (ToggleFilterTarget ctx m) = CustomRepoFilter m
   \<and> IsAuthorFilterRemoved (ToggleFilterTarget ctx m) = IsAuthorFilterRemoved m"
  by (simp add: ToggleFilterTarget_def Let_def)

theorem ToggleFilterTarget_transitions_witness:
  "ToggleFilterTarget ctxFork (modelOrigin\<lparr>ConfigFilters := ''is:open repo:x/y''\<rparr>)
     = modelOrigin\<lparr>ConfigFilters := ''is:open repo:x/y''\<rparr>
   \<and> FilterTarget (ToggleFilterTarget ctxFork modelOrigin) = FilterTargetUpstream
   \<and> FilterTarget (ToggleFilterTarget ctxFork (modelOrigin\<lparr>FilterTarget := FilterTargetUpstream\<rparr>))
       = FilterTargetNone
   \<and> FilterTarget (ToggleFilterTarget ctxFork (modelOrigin\<lparr>FilterTarget := FilterTargetNone\<rparr>))
       = FilterTargetOrigin
   \<and> FilterTarget (ToggleFilterTarget ctxOrigin modelOrigin) = FilterTargetNone
   \<and> FilterTarget (ToggleFilterTarget ctxOrigin (modelOrigin\<lparr>FilterTarget := FilterTargetNone\<rparr>))
       = FilterTargetOrigin"
proof -
  have c: "HasRepoNameInConfiguredFilter (modelOrigin\<lparr>ConfigFilters := ''is:open repo:x/y''\<rparr>)"
    "\<not> HasRepoNameInConfiguredFilter modelOrigin"
    "\<not> HasRepoNameInConfiguredFilter (modelOrigin\<lparr>FilterTarget := FilterTargetUpstream\<rparr>)"
    "\<not> HasRepoNameInConfiguredFilter (modelOrigin\<lparr>FilterTarget := FilterTargetNone\<rparr>)"
    by (simp_all add: HasRepoNameInConfiguredFilter_def modelOrigin_def string_eval)
  have u: "HasUpstreamRemote ctxFork" "\<not> HasUpstreamRemote ctxOrigin"
    by (simp_all add: HasUpstreamRemote_def ctx_eval)
  have t: "FilterTarget modelOrigin = FilterTargetOrigin" by (simp add: modelOrigin_def)
  show ?thesis
    using ToggleFilterTarget_transitions [of "modelOrigin\<lparr>ConfigFilters := ''is:open repo:x/y''\<rparr>" ctxFork]
      ToggleFilterTarget_transitions [of modelOrigin ctxFork]
      ToggleFilterTarget_transitions [of "modelOrigin\<lparr>FilterTarget := FilterTargetUpstream\<rparr>" ctxFork]
      ToggleFilterTarget_transitions [of "modelOrigin\<lparr>FilterTarget := FilterTargetNone\<rparr>" ctxFork]
      ToggleFilterTarget_transitions [of modelOrigin ctxOrigin]
      ToggleFilterTarget_transitions [of "modelOrigin\<lparr>FilterTarget := FilterTargetNone\<rparr>" ctxOrigin]
      c u t
    by simp
qed


subsection \<open>C6: remote URLs that parse\<close>

text \<open>
  C6 (amended). Let owner and name be non-empty and free of slashes, and let the URL stand
  between two runs of white space. \<open>ParseGitHubRepoFromUrl\<close> returns owner and name, and no
  error,
  \<^item> on \<open>git@H:owner/name\<close> and \<open>git@H:owner/name.git\<close> for every host \<open>H\<close> without a colon, and
  \<^item> on \<open>http://H/owner/name\<close> and \<open>https://H/owner/name\<close>, each with or without \<open>.git\<close> and with or
    without a slash at the end, for every host \<open>H\<close> without a slash,
  where a URL written without \<open>.git\<close> needs a name that does not end in \<open>.git\<close>, and a URL
  that ends with the name needs a name that does not end in white space. The host is not
  checked against any list, and may even be empty; but the first colon (SSH) or the first
  slash (HTTP) ends it, so the claim does not hold for every host string.
\<close>

theorem parse_success:
  assumes "owner \<noteq> []" "name \<noteq> []" "CHR ''/'' \<notin> set owner" "CHR ''/'' \<notin> set name"
    and "whiteSpace pre" "whiteSpace post"
  shows
    "(g \<in> {[], ''.git''} \<and> CHR '':'' \<notin> set H
        \<and> (g = [] \<longrightarrow> \<not> HasSuffix name ''.git'' \<and> \<not> endsWithSpace name) \<longrightarrow>
      ParseGitHubRepoFromUrl (pre @ ''git@'' @ H @ '':'' @ owner @ ''/'' @ name @ g @ post) = (owner, name, None))
     \<and> (scheme \<in> {''https://'', ''http://''} \<and> g \<in> {[], ''.git''} \<and> s \<in> {[], ''/''}
        \<and> CHR ''/'' \<notin> set H
        \<and> (g = [] \<longrightarrow> \<not> HasSuffix name ''.git'') \<and> (g = [] \<and> s = [] \<longrightarrow> \<not> endsWithSpace name) \<longrightarrow>
      ParseGitHubRepoFromUrl (pre @ scheme @ H @ ''/'' @ owner @ ''/'' @ name @ g @ s @ post) = (owner, name, None))"
proof (intro conjI impI)
  assume a: "g \<in> {[], ''.git''} \<and> CHR '':'' \<notin> set H
        \<and> (g = [] \<longrightarrow> \<not> HasSuffix name ''.git'' \<and> \<not> endsWithSpace name)"
  define path where "path = owner @ ''/'' @ name @ g"
  define form where "form = ''git@'' @ H @ '':'' @ path"
  have lastp: "last path = (if g = [] then last name else CHR ''t'')" "path \<noteq> []"
    using a assms(2) by (auto simp: path_def)
  have lastf: "last form = last path" "form \<noteq> []"
    using lastp(2) by (simp_all add: form_def)
  have st: "\<not> startsWithSpace form"
    by (simp add: form_def startsWithSpace_ascii byte_def asciiSpace_def)
  have "form = (''git@'' @ H @ '':'' @ owner) @ CHR ''/'' # name @ g"
    by (simp add: form_def path_def)
  then have ns: "\<not> endsWithSpace form"
    using url_not_endsWithSpace [of name g "''git@'' @ H @ '':'' @ owner"] assms(2) a by simp
  have nsl: "last form \<noteq> CHR ''/''" using lastf lastp assms(2,4) by (auto dest: last_in_set)
  have ts: "TrimSpace (pre @ form @ post) = form"
    using assms(5,6) st ns by (rule TrimSpace_surround)
  have n: "TrimSuffix (TrimSpace (pre @ form @ post)) ''/'' = ''git@'' @ H @ '':'' @ path"
    unfolding ts using nsl lastf(2) by (simp add: TrimSuffix_none HasSuffix_single form_def)
  have t1: "TrimSuffix path ''.git'' = owner @ CHR ''/'' # name"
  proof (cases "g = []")
    case True
    then show ?thesis using a not_git_suffix [of name owner] by (simp add: path_def TrimSuffix_none)
  next
    case False
    with a have "g = ''.git''" by simp
    then have "path = (owner @ CHR ''/'' # name) @ ''.git''" by (simp add: path_def)
    then show ?thesis by (simp only: TrimSuffix_append)
  qed
  have t2: "TrimPrefix (owner @ CHR ''/'' # name) ''/'' = owner @ CHR ''/'' # name"
    using assms(1,3) by (cases owner) (auto simp: TrimPrefix_def HasPrefix_def)
  have "ParseGitHubRepoFromUrl (pre @ form @ post) = (owner, name, None)"
    using parse_ssh [OF n] a by (simp add: t1 t2 ownerRepo_ok assms)
  then show "ParseGitHubRepoFromUrl (pre @ ''git@'' @ H @ '':'' @ owner @ ''/'' @ name @ g @ post) = (owner, name, None)"
    by (simp add: form_def path_def)
next
  assume a: "scheme \<in> {''https://'', ''http://''} \<and> g \<in> {[], ''.git''} \<and> s \<in> {[], ''/''}
        \<and> CHR ''/'' \<notin> set H
        \<and> (g = [] \<longrightarrow> \<not> HasSuffix name ''.git'') \<and> (g = [] \<and> s = [] \<longrightarrow> \<not> endsWithSpace name)"
  define path where "path = owner @ ''/'' @ name @ g"
  define form where "form = scheme @ H @ ''/'' @ path"
  have lastp: "last path = (if g = [] then last name else CHR ''t'')" "path \<noteq> []"
    using a assms(2) by (auto simp: path_def)
  have lastf: "last form = last path" "form \<noteq> []"
    using lastp(2) a by (auto simp: form_def)
  have st: "\<not> startsWithSpace (form @ s)"
    using a by (auto simp: form_def startsWithSpace_ascii byte_def asciiSpace_def)
  have ns: "\<not> endsWithSpace (form @ s)"
  proof (cases "s = []")
    case True
    have "form = (scheme @ H @ ''/'' @ owner) @ CHR ''/'' # name @ g"
      by (simp add: form_def path_def)
    then show ?thesis
      using url_not_endsWithSpace [of name g "scheme @ H @ ''/'' @ owner"] assms(2) a True by simp
  next
    case False
    with a have "s = ''/''" by simp
    then show ?thesis by (simp add: endsWithSpace_ascii byte_def asciiSpace_def)
  qed
  have nsl: "last form \<noteq> CHR ''/''" using lastf lastp assms(2,4) by (auto dest: last_in_set)
  have "TrimSpace (pre @ (form @ s) @ post) = form @ s"
    using assms(5,6) st ns by (rule TrimSpace_surround)
  then have ts: "TrimSpace (pre @ form @ s @ post) = form @ s" by simp
  have n: "TrimSuffix (TrimSpace (pre @ form @ s @ post)) ''/'' = scheme @ H @ ''/'' @ path"
  proof (cases "s = []")
    case True
    then show ?thesis unfolding ts using nsl lastf(2) by (simp add: TrimSuffix_none HasSuffix_single form_def)
  next
    case False
    with a have "s = ''/''" by simp
    then show ?thesis unfolding ts by (simp only: TrimSuffix_append form_def)
  qed
  have t1: "TrimSuffix path ''.git'' = owner @ CHR ''/'' # name"
  proof (cases "g = []")
    case True
    then show ?thesis using a not_git_suffix [of name owner] by (simp add: path_def TrimSuffix_none)
  next
    case False
    with a have "g = ''.git''" by simp
    then have "path = (owner @ CHR ''/'' # name) @ ''.git''" by (simp add: path_def)
    then show ?thesis by (simp only: TrimSuffix_append)
  qed
  have "last (owner @ CHR ''/'' # name) \<in> set name" using assms(2) by simp
  then have "\<not> HasSuffix (owner @ CHR ''/'' # name) ''/''"
    using assms(4) by (auto simp: HasSuffix_single)
  then have t2: "TrimSuffix (owner @ CHR ''/'' # name) ''/'' = owner @ CHR ''/'' # name"
    by (rule TrimSuffix_none)
  have "ParseGitHubRepoFromUrl (pre @ form @ s @ post) = (owner, name, None)"
    using parse_http [OF n] a by (simp add: t1 t2 ownerRepo_ok assms)
  then show "ParseGitHubRepoFromUrl (pre @ scheme @ H @ ''/'' @ owner @ ''/'' @ name @ g @ s @ post) = (owner, name, None)"
    by (simp add: form_def path_def)
qed

theorem parse_success_witness:
  "ParseGitHubRepoFromUrl ''git@github.com:owner/repo.git'' = (''owner'', ''repo'', None)
   \<and> ParseGitHubRepoFromUrl ''git@github.mycompany.com:org/project'' = (''org'', ''project'', None)
   \<and> ParseGitHubRepoFromUrl ''  https://github.com/owner/repo.git  '' = (''owner'', ''repo'', None)
   \<and> ParseGitHubRepoFromUrl ''http://github.local/owner/repo/'' = (''owner'', ''repo'', None)
   \<and> ParseGitHubRepoFromUrl (''git@host:owner/repo'' @ [CHR 0xC2, CHR 0xA0]) = (''owner'', ''repo'', None)"
proof -
  have sp: "whiteSpace []" "whiteSpace ''  ''" "whiteSpace [CHR 0xC2, CHR 0xA0]"
    by (simp_all add: space_eval rune_eval)
  have r: "\<not> HasSuffix ''repo'' ''.git''" "\<not> endsWithSpace ''repo''"
    "\<not> HasSuffix ''project'' ''.git''" "\<not> endsWithSpace ''project''"
    by (simp_all add: HasSuffix_def space_eval)
  have a: "ParseGitHubRepoFromUrl ([] @ ''git@'' @ ''github.com'' @ '':'' @ ''owner'' @ ''/'' @ ''repo'' @ ''.git'' @ []) = (''owner'', ''repo'', None)"
    using parse_success [where owner = "''owner''" and name = "''repo''" and pre = "[]"
        and post = "[]" and g = "''.git''" and H = "''github.com''"] sp
    by simp
  have b: "ParseGitHubRepoFromUrl ([] @ ''git@'' @ ''github.mycompany.com'' @ '':'' @ ''org'' @ ''/'' @ ''project'' @ [] @ []) = (''org'', ''project'', None)"
    using parse_success [where owner = "''org''" and name = "''project''" and pre = "[]"
        and post = "[]" and g = "[]" and H = "''github.mycompany.com''"] sp r
    by simp
  have c: "ParseGitHubRepoFromUrl (''  '' @ ''https://'' @ ''github.com'' @ ''/'' @ ''owner'' @ ''/'' @ ''repo'' @ ''.git'' @ [] @ ''  '') = (''owner'', ''repo'', None)"
    using parse_success [where owner = "''owner''" and name = "''repo''" and pre = "''  ''"
        and post = "''  ''" and g = "''.git''" and H = "''github.com''"
        and scheme = "''https://''" and s = "[]"] sp
    by simp
  have d: "ParseGitHubRepoFromUrl ([] @ ''http://'' @ ''github.local'' @ ''/'' @ ''owner'' @ ''/'' @ ''repo'' @ [] @ ''/'' @ []) = (''owner'', ''repo'', None)"
    using parse_success [where owner = "''owner''" and name = "''repo''" and pre = "[]"
        and post = "[]" and g = "[]" and H = "''github.local''"
        and scheme = "''http://''" and s = "''/''"] sp r
    by simp
  have e: "ParseGitHubRepoFromUrl ([] @ ''git@'' @ ''host'' @ '':'' @ ''owner'' @ ''/'' @ ''repo'' @ [] @ [CHR 0xC2, CHR 0xA0]) = (''owner'', ''repo'', None)"
    using parse_success [where owner = "''owner''" and name = "''repo''" and pre = "[]"
        and post = "[CHR 0xC2, CHR 0xA0]" and g = "[]" and H = "''host''"] sp r
    by simp
  from a b c d e show ?thesis by simp
qed

text \<open>The counterexample: the SSH form with the host \<open>[::1]\<close>, owner \<open>owner\<close> and name
  \<open>repo\<close>. The path starts after the first colon, inside the host, and the owner returned is
  \<open>:1]:owner\<close>.\<close>

theorem parse_success_counterexample:
  "''git@[::1]:owner/repo'' = ''git@'' @ ''[::1]'' @ '':'' @ ''owner'' @ ''/'' @ ''repo''
   \<and> ParseGitHubRepoFromUrl ''git@[::1]:owner/repo'' = ('':1]:owner'', ''repo'', None)
   \<and> ParseGitHubRepoFromUrl ''git@[::1]:owner/repo'' \<noteq> (''owner'', ''repo'', None)"
  by (simp add: parse_eval)


subsection \<open>C7: remote URLs that do not parse\<close>

text \<open>
  C7. \<open>ParseGitHubRepoFromUrl\<close> first trims white space from both ends of its input and
  drops one slash from its end, as the grammar of the specification says. On what is left it
  fails
  \<^item> with an error of the class \<open>UnsupportedFormat\<close> when that does not start with \<open>git@\<close>,
    \<open>https://\<close> or \<open>http://\<close> (the empty input is one such);
  \<^item> with \<open>MissingColonSeparator\<close> when it starts with \<open>git@\<close> and has no colon;
  \<^item> with \<open>MissingPath\<close> when it starts with \<open>https://\<close> or \<open>http://\<close> and has no slash after
    that;
  \<^item> with \<open>MalformedOwnerRepo\<close> when the path (after the first colon, without \<open>.git\<close> at its end
    and a slash at its start, for SSH; after the first slash behind the scheme, without
    \<open>.git\<close> and then a slash at its end, for HTTP) is not made of exactly two non-empty
    segments.
  On every error owner and name are empty. The eight inputs of the specification get the
  classes it lists.
\<close>

theorem parse_error_taxonomy:
  "(\<not> HasPrefix (TrimSuffix (TrimSpace url) ''/'') ''git@''
      \<and> \<not> HasPrefix (TrimSuffix (TrimSpace url) ''/'') ''https://''
      \<and> \<not> HasPrefix (TrimSuffix (TrimSpace url) ''/'') ''http://'' \<longrightarrow>
      errorClassOf (ParseGitHubRepoFromUrl url) = Some UnsupportedFormat)
   \<and> (TrimSuffix (TrimSpace url) ''/'' = ''git@'' @ rest \<and> CHR '':'' \<notin> set rest \<longrightarrow>
      errorClassOf (ParseGitHubRepoFromUrl url) = Some MissingColonSeparator)
   \<and> (TrimSuffix (TrimSpace url) ''/'' = scheme @ H \<and> scheme \<in> {''https://'', ''http://''}
      \<and> CHR ''/'' \<notin> set H \<longrightarrow>
      errorClassOf (ParseGitHubRepoFromUrl url) = Some MissingPath)
   \<and> (TrimSuffix (TrimSpace url) ''/'' = ''git@'' @ H @ '':'' @ path \<and> CHR '':'' \<notin> set H
      \<and> \<not> twoSegments (TrimPrefix (TrimSuffix path ''.git'') ''/'') \<longrightarrow>
      errorClassOf (ParseGitHubRepoFromUrl url) = Some MalformedOwnerRepo)
   \<and> (TrimSuffix (TrimSpace url) ''/'' = scheme @ H @ ''/'' @ path
      \<and> scheme \<in> {''https://'', ''http://''} \<and> CHR ''/'' \<notin> set H
      \<and> \<not> twoSegments (TrimSuffix (TrimSuffix path ''.git'') ''/'') \<longrightarrow>
      errorClassOf (ParseGitHubRepoFromUrl url) = Some MalformedOwnerRepo)
   \<and> (errorClassOf (ParseGitHubRepoFromUrl url) \<noteq> None \<longrightarrow>
      fst (ParseGitHubRepoFromUrl url) = [] \<and> fst (snd (ParseGitHubRepoFromUrl url)) = [])
   \<and> errorClassOf (ParseGitHubRepoFromUrl []) = Some UnsupportedFormat
   \<and> errorClassOf (ParseGitHubRepoFromUrl ''ftp://github.com/owner/repo'') = Some UnsupportedFormat
   \<and> errorClassOf (ParseGitHubRepoFromUrl ''git@host/o/r'') = Some MissingColonSeparator
   \<and> errorClassOf (ParseGitHubRepoFromUrl ''https://host'') = Some MissingPath
   \<and> errorClassOf (ParseGitHubRepoFromUrl ''https://host/only'') = Some MalformedOwnerRepo
   \<and> errorClassOf (ParseGitHubRepoFromUrl ''https://host/a/b/c'') = Some MalformedOwnerRepo
   \<and> errorClassOf (ParseGitHubRepoFromUrl ''git@host:/r'') = Some MalformedOwnerRepo
   \<and> errorClassOf (ParseGitHubRepoFromUrl ''https://host/o/'') = Some MalformedOwnerRepo"
proof -
  have 1: "\<not> HasPrefix (TrimSuffix (TrimSpace url) ''/'') ''git@''
      \<and> \<not> HasPrefix (TrimSuffix (TrimSpace url) ''/'') ''https://''
      \<and> \<not> HasPrefix (TrimSuffix (TrimSpace url) ''/'') ''http://'' \<longrightarrow>
      errorClassOf (ParseGitHubRepoFromUrl url) = Some UnsupportedFormat"
    by (simp add: parse_unsupported)
  have 2: "TrimSuffix (TrimSpace url) ''/'' = ''git@'' @ rest \<and> CHR '':'' \<notin> set rest \<longrightarrow>
      errorClassOf (ParseGitHubRepoFromUrl url) = Some MissingColonSeparator"
    by (simp add: parse_missing_colon)
  have 3: "TrimSuffix (TrimSpace url) ''/'' = scheme @ H \<and> scheme \<in> {''https://'', ''http://''}
      \<and> CHR ''/'' \<notin> set H \<longrightarrow>
      errorClassOf (ParseGitHubRepoFromUrl url) = Some MissingPath"
    using parse_missing_path [of url scheme H] by auto
  have 4: "TrimSuffix (TrimSpace url) ''/'' = ''git@'' @ H @ '':'' @ path \<and> CHR '':'' \<notin> set H
      \<and> \<not> twoSegments (TrimPrefix (TrimSuffix path ''.git'') ''/'') \<longrightarrow>
      errorClassOf (ParseGitHubRepoFromUrl url) = Some MalformedOwnerRepo"
    using parse_ssh [of url H path] by (auto simp: ownerRepo_error)
  have 5: "TrimSuffix (TrimSpace url) ''/'' = scheme @ H @ ''/'' @ path
      \<and> scheme \<in> {''https://'', ''http://''} \<and> CHR ''/'' \<notin> set H
      \<and> \<not> twoSegments (TrimSuffix (TrimSuffix path ''.git'') ''/'') \<longrightarrow>
      errorClassOf (ParseGitHubRepoFromUrl url) = Some MalformedOwnerRepo"
    using parse_http [of url scheme H path] by (auto simp: ownerRepo_error)
  have 6: "errorClassOf (ParseGitHubRepoFromUrl url) \<noteq> None \<longrightarrow>
      fst (ParseGitHubRepoFromUrl url) = [] \<and> fst (snd (ParseGitHubRepoFromUrl url)) = []"
  proof (cases "ParseGitHubRepoFromUrl url")
    case (fields a b e)
    then show ?thesis using parse_error_empty [of url a b] by (cases e) auto
  qed
  show ?thesis
    using 1 2 3 4 5 6 by (simp add: parse_examples)
qed

theorem parse_error_taxonomy_witness:
  "errorClassOf (ParseGitHubRepoFromUrl ''  svn://host/o/r '') = Some UnsupportedFormat
   \<and> errorClassOf (ParseGitHubRepoFromUrl ''git@github.com/owner/repo'') = Some MissingColonSeparator
   \<and> errorClassOf (ParseGitHubRepoFromUrl ''https://github.com/'') = Some MissingPath
   \<and> errorClassOf (ParseGitHubRepoFromUrl ''git@github.com:owner'') = Some MalformedOwnerRepo
   \<and> errorClassOf (ParseGitHubRepoFromUrl ''http://github.com/owner/repo/extra/path'') = Some MalformedOwnerRepo
   \<and> fst (ParseGitHubRepoFromUrl ''git@github.com:owner'') = []
   \<and> fst (snd (ParseGitHubRepoFromUrl ''git@github.com:owner'')) = []"
proof -
  have n1: "TrimSuffix (TrimSpace ''  svn://host/o/r '') ''/'' = ''svn://host/o/r''"
    and n2: "TrimSuffix (TrimSpace ''git@github.com/owner/repo'') ''/'' = ''git@'' @ ''github.com/owner/repo''"
    and n3: "TrimSuffix (TrimSpace ''https://github.com/'') ''/'' = ''https://'' @ ''github.com''"
    and n4: "TrimSuffix (TrimSpace ''git@github.com:owner'') ''/'' = ''git@'' @ ''github.com'' @ '':'' @ ''owner''"
    and n5: "TrimSuffix (TrimSpace ''http://github.com/owner/repo/extra/path'') ''/''
               = ''http://'' @ ''github.com'' @ ''/'' @ ''owner/repo/extra/path''"
    by (simp_all add: TrimSuffix_def HasSuffix_def space_eval)
  have s4: "\<not> twoSegments (TrimPrefix (TrimSuffix ''owner'' ''.git'') ''/'')"
    and s5: "\<not> twoSegments (TrimSuffix (TrimSuffix ''owner/repo/extra/path'' ''.git'') ''/'')"
    by (simp_all add: twoSegments_def TrimPrefix_def TrimSuffix_def HasSuffix_def HasPrefix_def)
  have p1: "\<not> HasPrefix ''svn://host/o/r'' ''git@''" "\<not> HasPrefix ''svn://host/o/r'' ''https://''"
    "\<not> HasPrefix ''svn://host/o/r'' ''http://''"
    by (simp_all add: HasPrefix_def)
  show ?thesis
    using parse_error_taxonomy [of "''  svn://host/o/r ''"]
      parse_error_taxonomy [of "''git@github.com/owner/repo''" "''github.com/owner/repo''"]
      parse_error_taxonomy [of "''https://github.com/''" _ "''https://''" "''github.com''"]
      parse_error_taxonomy [of "''git@github.com:owner''" _ _ "''github.com''" "''owner''"]
      parse_error_taxonomy [of "''http://github.com/owner/repo/extra/path''" _ "''http://''" "''github.com''" "''owner/repo/extra/path''"]
      n1 n2 n3 n4 n5 s4 s5 p1
    by simp
qed


subsection \<open>C8: the short name of a repository\<close>

text \<open>
  C8 (amended). For a URL that starts with \<open>https://github.com/\<close>, \<open>GetRepoShortName\<close> returns
  what follows the prefix, without \<open>.git\<close> at its end. For a URL that does not start with it,
  \<open>GetRepoShortName\<close> returns the URL without \<open>.git\<close> at its end: the URL itself only when
  it does not end in \<open>.git\<close>.
\<close>

theorem GetRepoShortName_cases:
  "GetRepoShortName (''https://github.com/'' @ r @ ''.git'') = r
   \<and> (\<not> HasSuffix r ''.git'' \<longrightarrow> GetRepoShortName (''https://github.com/'' @ r) = r)
   \<and> (\<not> HasPrefix (u @ ''.git'') ''https://github.com/'' \<longrightarrow> GetRepoShortName (u @ ''.git'') = u)
   \<and> (\<not> HasPrefix url ''https://github.com/'' \<and> \<not> HasSuffix url ''.git''
        \<longrightarrow> GetRepoShortName url = url)"
proof -
  have pre: "CutPrefix (''https://github.com/'' @ s) ''https://github.com/'' = (s, True)" for s
    using HasPrefix_append [of "''https://github.com/''" s] by (simp add: CutPrefix_def)
  have suf: "CutSuffix (s @ ''.git'') ''.git'' = (s, True)" for s
    using HasSuffix_append [of s "''.git''"] by (simp add: CutSuffix_def)
  have a: "GetRepoShortName (''https://github.com/'' @ r @ ''.git'') = r"
    unfolding GetRepoShortName_def Let_def pre fst_conv suf by simp
  have b: "\<not> HasSuffix r ''.git'' \<longrightarrow> GetRepoShortName (''https://github.com/'' @ r) = r"
    unfolding GetRepoShortName_def Let_def pre by (simp add: CutSuffix_def)
  have c: "\<not> HasPrefix (u @ ''.git'') ''https://github.com/'' \<longrightarrow> GetRepoShortName (u @ ''.git'') = u"
    using suf [of u] by (simp add: GetRepoShortName_def CutPrefix_def)
  have d: "\<not> HasPrefix url ''https://github.com/'' \<and> \<not> HasSuffix url ''.git''
        \<longrightarrow> GetRepoShortName url = url"
    unfolding GetRepoShortName_def Let_def by (simp add: CutPrefix_def CutSuffix_def)
  from a b c d show ?thesis by blast
qed

theorem GetRepoShortName_cases_witness:
  "GetRepoShortName ''https://github.com/owner/repo.git'' = ''owner/repo''
   \<and> GetRepoShortName ''https://github.com/owner/repo'' = ''owner/repo''
   \<and> GetRepoShortName ''git@github.com:owner/repo.git'' = ''git@github.com:owner/repo''
   \<and> GetRepoShortName ''https://gitlab.com/owner/repo'' = ''https://gitlab.com/owner/repo''"
  using GetRepoShortName_cases [of "''owner/repo''" "''git@github.com:owner/repo''" "''https://gitlab.com/owner/repo''"]
  by (simp add: HasSuffix_def HasPrefix_def)

text \<open>The counterexample: a URL on another host that ends in \<open>.git\<close>.\<close>

theorem GetRepoShortName_verbatim_counterexample:
  "\<not> HasPrefix ''https://gitlab.com/owner/repo.git'' ''https://github.com/''
   \<and> GetRepoShortName ''https://gitlab.com/owner/repo.git'' = ''https://gitlab.com/owner/repo''
   \<and> GetRepoShortName ''https://gitlab.com/owner/repo.git'' \<noteq> ''https://gitlab.com/owner/repo.git''"
  by (simp add: GetRepoShortName_def CutPrefix_def CutSuffix_def HasPrefix_def HasSuffix_def)


subsection \<open>C9: the author filter and the scope do not interfere\<close>

text \<open>
  C9. For every model and context, the tokens of the query composed with the author filter
  removed are the tokens of the query composed with it kept, without the tokens equal to
  \<open>author:@me\<close>; the tokens with the prefix \<open>repo:\<close> are the same in both. (With the filter
  removed the tokens are joined again by single spaces.) \<open>ToggleAuthorFilter\<close> negates
  \<open>IsAuthorFilterRemoved\<close> and leaves the filter target and the custom repo filter alone.
\<close>

theorem author_filter_orthogonal:
  "FieldsSeq (GetSearchValue ctx (m\<lparr>IsAuthorFilterRemoved := True\<rparr>)) =
     filter (\<lambda>token. token \<noteq> ''author:@me'')
       (FieldsSeq (GetSearchValue ctx (m\<lparr>IsAuthorFilterRemoved := False\<rparr>)))
   \<and> filter isRepoToken (FieldsSeq (GetSearchValue ctx (m\<lparr>IsAuthorFilterRemoved := True\<rparr>))) =
     filter isRepoToken (FieldsSeq (GetSearchValue ctx (m\<lparr>IsAuthorFilterRemoved := False\<rparr>)))
   \<and> IsAuthorFilterRemoved (ToggleAuthorFilter m) = (\<not> IsAuthorFilterRemoved m)
   \<and> FilterTarget (ToggleAuthorFilter m) = FilterTarget m
   \<and> CustomRepoFilter (ToggleAuthorFilter m) = CustomRepoFilter m"
proof -
  let ?q = "GetSearchValue ctx (m\<lparr>IsAuthorFilterRemoved := False\<rparr>)"
  have "GetSearchValue ctx (m\<lparr>IsAuthorFilterRemoved := True\<rparr>) =
          Join (filter (\<lambda>token. token \<noteq> ''author:@me'') (FieldsSeq ?q)) '' ''"
    using GetSearchValue_author [of ctx "m\<lparr>IsAuthorFilterRemoved := True\<rparr>"]
    by (simp add: applyAuthorFilter_True)
  then have toks: "FieldsSeq (GetSearchValue ctx (m\<lparr>IsAuthorFilterRemoved := True\<rparr>)) =
          filter (\<lambda>token. token \<noteq> ''author:@me'') (FieldsSeq ?q)"
    by (simp add: FieldsSeq_Join_filter)
  show ?thesis
    by (simp add: toks filter_repo_author ToggleAuthorFilter_def del: filter_filter)
qed

theorem author_filter_orthogonal_witness:
  "FieldsSeq (GetSearchValue ctxOrigin (modelOrigin\<lparr>IsAuthorFilterRemoved := True\<rparr>))
     = [''repo:acme/widgets'', ''is:open'']
   \<and> FieldsSeq (GetSearchValue ctxOrigin (modelOrigin\<lparr>IsAuthorFilterRemoved := False\<rparr>))
     = [''repo:acme/widgets'', ''is:open'', ''author:@me'']
   \<and> IsAuthorFilterRemoved (ToggleAuthorFilter modelOrigin)"
  using author_filter_orthogonal [of ctxOrigin modelOrigin]
  by (simp add: section_eval)


subsection \<open>C10: a bare repo token\<close>

text \<open>
  C10. When the first token of the search value with the prefix \<open>repo:\<close> is \<open>repo:\<close> itself,
  \<open>SyncRepoFilterStateFromSearchValue\<close> clears the custom repo filter, sets the filter target to
  none and \<open>IsFilteredByCurrentRemote\<close> to false, whatever the remotes are: the same update as
  for a search value with no such token.
\<close>

theorem Sync_bare_repo_token:
  "find isRepoToken (FieldsSeq (SearchValue m)) = Some ''repo:'' \<Longrightarrow>
     SyncRepoFilterStateFromSearchValue ctx m =
       m\<lparr>CustomRepoFilter := [], FilterTarget := FilterTargetNone,
         IsFilteredByCurrentRemote := False\<rparr>
     \<and> (find isRepoToken (FieldsSeq (SearchValue m')) = None \<longrightarrow>
          SyncRepoFilterStateFromSearchValue ctx' m' =
            m'\<lparr>CustomRepoFilter := [], FilterTarget := FilterTargetNone,
              IsFilteredByCurrentRemote := False\<rparr>)"
  by (simp add: SyncRepoFilterStateFromSearchValue_def getRepoFilterTokenValue_find)

theorem Sync_bare_repo_token_witness:
  "find isRepoToken (FieldsSeq (SearchValue (modelOrigin\<lparr>SearchValue := ''is:open repo: repo:a/b''\<rparr>)))
     = Some ''repo:''
   \<and> SyncRepoFilterStateFromSearchValue ctxFork (modelOrigin\<lparr>SearchValue := ''is:open repo: repo:a/b''\<rparr>)
     = modelOrigin\<lparr>SearchValue := ''is:open repo: repo:a/b'', CustomRepoFilter := [],
         FilterTarget := FilterTargetNone, IsFilteredByCurrentRemote := False\<rparr>"
proof -
  have h: "find isRepoToken (FieldsSeq (SearchValue (modelOrigin\<lparr>SearchValue := ''is:open repo: repo:a/b''\<rparr>)))
     = Some ''repo:''"
    by (simp add: isRepoToken_def string_eval)
  show ?thesis
    using h Sync_bare_repo_token [OF h, of ctxFork] by simp
qed

end
